theory Spec2Isabelle
  imports Main
begin

section \<open>The analysis route of ChainBreak AI (src/app/api/analyze/route.ts)\<close>

text \<open>
  The route handler \<open>POST\<close> validates a request, assembles a prompt, calls the model
  backend once or twice, parses the answer as JSON, redacts a fixed list of keywords in
  the serialised answer and returns it. This theory embeds the handler and its helper
  functions, keeping the names of the source.
\<close>

subsection \<open>Strings\<close>

text \<open>
  A JavaScript string is a sequence of 16-bit code units, each written here as the
  number it holds (below 65536; no operation of the route does arithmetic that could
  leave that range). \<open>length\<close> is what \<open>.length\<close> counts, and \<open>js\<close>
  gives the code units of an ASCII literal.
\<close>

type_synonym code_unit = nat
type_synonym jsstring = "code_unit list"

definition unit_of :: "char \<Rightarrow> code_unit" where
  "unit_of c = of_char c"

definition js :: "string \<Rightarrow> jsstring" where
  "js s = map unit_of s"

text \<open>
  \<open>String.prototype.trim\<close> strips the code units of the productions WhiteSpace and
  LineTerminator of ECMAScript from both ends.
\<close>

definition isWhiteSpace :: "code_unit \<Rightarrow> bool" where
  "isWhiteSpace c =
     (c = 0x09 \<or> c = 0x0A \<or> c = 0x0B \<or> c = 0x0C \<or> c = 0x0D \<or> c = 0x20 \<or> c = 0xA0 \<or>
      c = 0x1680 \<or> (0x2000 \<le> c \<and> c \<le> 0x200A) \<or> c = 0x2028 \<or> c = 0x2029 \<or>
      c = 0x202F \<or> c = 0x205F \<or> c = 0x3000 \<or> c = 0xFEFF)"

definition trim :: "jsstring \<Rightarrow> jsstring" where
  "trim s = rev (dropWhile isWhiteSpace (rev (dropWhile isWhiteSpace s)))"

text \<open>\<open>`${n}`\<close> for a non-negative integer: its decimal digits.\<close>

fun decimal :: "nat \<Rightarrow> jsstring" where
  "decimal n = (if n < 10 then [0x30 + n] else decimal (n div 10) @ [0x30 + n mod 10])"

declare decimal.simps [simp del]

text \<open>
  A template literal prints an absent (\<open>undefined\<close>) value as the text
  \<open>undefined\<close>; \<open>x ?? d\<close> is \<open>d\<close> when \<open>x\<close> is \<open>null\<close> or
  \<open>undefined\<close>, and \<open>x\<close> otherwise (so the empty string stays).
\<close>

definition interpolate :: "jsstring option \<Rightarrow> jsstring" where
  "interpolate x = (case x of None \<Rightarrow> js ''undefined'' | Some s \<Rightarrow> s)"

definition nullish :: "'a option \<Rightarrow> 'a \<Rightarrow> 'a" where
  "nullish x d = (case x of None \<Rightarrow> d | Some v \<Rightarrow> v)"

subsection \<open>The regular expressions of sanitizeOutput\<close>

text \<open>
  \<open>new RegExp(keyword, "gi")\<close> reads the keyword as a pattern. The keywords hold
  letters, a space, a hyphen and, in \<open>cmd.exe\<close>, a dot: the dot is the pattern that
  matches any code unit but a line terminator, every other character matches itself,
  ignoring case. Under the flag \<open>i\<close> (without \<open>u\<close>) two code units match when their
  canonical forms are equal; the canonical form of an ASCII letter is its upper case, and
  a code unit from 128 on never has an ASCII canonical form, so against the ASCII
  keywords it is enough to leave such a unit as it is.
\<close>

datatype atom = Lit code_unit | AnyChar

definition RegExp :: "jsstring \<Rightarrow> atom list" where
  "RegExp src = map (\<lambda>c. if c = 0x2E then AnyChar else Lit c) src"

definition canonicalize :: "code_unit \<Rightarrow> code_unit" where
  "canonicalize c = (if 0x61 \<le> c \<and> c \<le> 0x7A then c - 0x20 else c)"

definition isLineTerminator :: "code_unit \<Rightarrow> bool" where
  "isLineTerminator c = (c = 0x0A \<or> c = 0x0D \<or> c = 0x2028 \<or> c = 0x2029)"

fun atom_matches :: "atom \<Rightarrow> code_unit \<Rightarrow> bool" where
  "atom_matches AnyChar c = (\<not> isLineTerminator c)"
| "atom_matches (Lit p) c = (canonicalize p = canonicalize c)"

text \<open>The pattern matches at the start of the text.\<close>

fun match_here :: "atom list \<Rightarrow> jsstring \<Rightarrow> bool" where
  "match_here [] s = True"
| "match_here (a # as) [] = False"
| "match_here (a # as) (c # cs) = (atom_matches a c \<and> match_here as cs)"

text \<open>\<open>regex.test(s)\<close> on a fresh regular expression: a match at some position.\<close>

fun regex_test :: "atom list \<Rightarrow> jsstring \<Rightarrow> bool" where
  "regex_test p [] = match_here p []"
| "regex_test p (c # cs) = (match_here p (c # cs) \<or> regex_test p cs)"

text \<open>
  \<open>s.replace(regex, r)\<close> with the flag \<open>g\<close> starts again at index 0 and replaces the
  matches from left to right, each search starting where the last match ended (after an
  empty match, one code unit further). \<open>skip\<close> counts the code units of the current
  match that are still to be dropped.
\<close>

fun replace_from :: "atom list \<Rightarrow> jsstring \<Rightarrow> nat \<Rightarrow> jsstring \<Rightarrow> jsstring" where
  "replace_from p r skip [] = (if skip = 0 \<and> match_here p [] then r else [])"
| "replace_from p r skip (c # cs) =
     (if 0 < skip then replace_from p r (skip - 1) cs
      else if match_here p (c # cs) then
        (if p = [] then r @ c # replace_from p r 0 cs
         else r @ replace_from p r (length p - 1) cs)
      else c # replace_from p r 0 cs)"

definition replace :: "atom list \<Rightarrow> jsstring \<Rightarrow> jsstring \<Rightarrow> jsstring" where
  "replace p r s = replace_from p r 0 s"

subsection \<open>sanitizeOutput\<close>

definition EXPLOIT_KEYWORDS :: "jsstring list" where
  "EXPLOIT_KEYWORDS =
     [js ''payload'', js ''reverse shell'', js ''metasploit'', js ''sqlmap'', js ''exploit'',
      js ''shellcode'', js ''cmd.exe'', js ''powershell -enc'', js ''dropper'']"

definition REDACTED :: jsstring where
  "REDACTED = js ''[redacted]''"

record sanitize_result =
  sanitized :: jsstring
  redacted :: bool

fun sanitize_loop :: "jsstring list \<Rightarrow> sanitize_result \<Rightarrow> sanitize_result" where
  "sanitize_loop [] acc = acc"
| "sanitize_loop (keyword # rest) acc =
     (let regex = RegExp keyword in
      if regex_test regex (sanitized acc)
      then sanitize_loop rest \<lparr>sanitized = replace regex REDACTED (sanitized acc), redacted = True\<rparr>
      else sanitize_loop rest acc)"

definition sanitizeOutput :: "jsstring \<Rightarrow> sanitize_result" where
  "sanitizeOutput jsonString = sanitize_loop EXPLOIT_KEYWORDS \<lparr>sanitized = jsonString, redacted = False\<rparr>"

subsection \<open>JSON values, JSON.stringify and JSON.parse\<close>

text \<open>
  The values \<open>JSON.parse\<close> returns. An object keeps its members in the order of
  their first appearance (an engine lists keys that are array indices first; that
  order is not modelled). A number is kept as its literal: the conversion to a double and
  back is floating point and stays outside the model, and the literal holds digits, a
  sign, a point and an exponent mark only, as the printed double does.
\<close>

datatype json =
    JNull
  | JBool bool
  | JNum jsstring
  | JStr jsstring
  | JArr "json list"
  | JObj "(jsstring \<times> json) list"

text \<open>
  QuoteJSONString: the two-character escapes, \<open>\u\<close> with four lower-case hex digits for
  the other control characters and for a surrogate that is not part of a pair, every
  other code unit as it is.
\<close>

definition hex_digit :: "nat \<Rightarrow> code_unit" where
  "hex_digit d = (if d < 10 then 0x30 + d else 0x57 + d)"

definition unicode_escape :: "code_unit \<Rightarrow> jsstring" where
  "unicode_escape c =
     [0x5C, 0x75, hex_digit (c div 4096 mod 16), hex_digit (c div 256 mod 16),
      hex_digit (c div 16 mod 16), hex_digit (c mod 16)]"

definition isLeadingSurrogate :: "code_unit \<Rightarrow> bool" where
  "isLeadingSurrogate c = (0xD800 \<le> c \<and> c \<le> 0xDBFF)"

definition isTrailingSurrogate :: "code_unit \<Rightarrow> bool" where
  "isTrailingSurrogate c = (0xDC00 \<le> c \<and> c \<le> 0xDFFF)"

definition quote_unit :: "code_unit \<Rightarrow> jsstring" where
  "quote_unit c =
     (if c = 0x08 then [0x5C, 0x62]
      else if c = 0x09 then [0x5C, 0x74]
      else if c = 0x0A then [0x5C, 0x6E]
      else if c = 0x0C then [0x5C, 0x66]
      else if c = 0x0D then [0x5C, 0x72]
      else if c = 0x22 then [0x5C, 0x22]
      else if c = 0x5C then [0x5C, 0x5C]
      else if c < 0x20 \<or> isLeadingSurrogate c \<or> isTrailingSurrogate c then unicode_escape c
      else [c])"

fun quote_units :: "jsstring \<Rightarrow> jsstring" where
  "quote_units [] = []"
| "quote_units [c] = quote_unit c"
| "quote_units (c # d # cs) =
     (if isLeadingSurrogate c \<and> isTrailingSurrogate d then c # d # quote_units cs
      else quote_unit c @ quote_units (d # cs))"

definition QuoteJSONString :: "jsstring \<Rightarrow> jsstring" where
  "QuoteJSONString s = 0x22 # quote_units s @ [0x22]"

fun join :: "jsstring \<Rightarrow> jsstring list \<Rightarrow> jsstring" where
  "join sep [] = []"
| "join sep [x] = x"
| "join sep (x # y # ys) = x @ sep @ join sep (y # ys)"

text \<open>
  \<open>JSON.stringify(v, null, 2)\<close>: SerializeJSONProperty with a gap of two spaces;
  \<open>indent\<close> is the indentation of the enclosing container.
\<close>

fun serialize :: "jsstring \<Rightarrow> json \<Rightarrow> jsstring" where
  "serialize indent JNull = js ''null''"
| "serialize indent (JBool b) = (if b then js ''true'' else js ''false'')"
| "serialize indent (JNum n) = n"
| "serialize indent (JStr s) = QuoteJSONString s"
| "serialize indent (JArr xs) =
     (if xs = [] then js ''[]''
      else js ''['' @ 0x0A # (indent @ js ''  '') @
           join (js '','' @ 0x0A # (indent @ js ''  '')) (map (serialize (indent @ js ''  '')) xs) @
           0x0A # indent @ js '']'')"
| "serialize indent (JObj ms) =
     (if ms = [] then js ''{}''
      else js ''{'' @ 0x0A # (indent @ js ''  '') @
           join (js '','' @ 0x0A # (indent @ js ''  ''))
             (map (\<lambda>m. QuoteJSONString (fst m) @ js '': '' @ serialize (indent @ js ''  '') (snd m)) ms) @
           0x0A # indent @ js ''}'')"

definition JSON_stringify :: "json \<Rightarrow> jsstring" where
  "JSON_stringify v = serialize [] v"

text \<open>
  \<open>JSON.parse\<close>, in two passes: the text is cut into tokens, then the tokens are read
  by a stack automaton. \<open>None\<close> is the SyntaxError.
\<close>

datatype token =
    TLBrace | TRBrace | TLBracket | TRBracket | TColon | TComma
  | TString jsstring | TNumber jsstring | TTrue | TFalse | TNull

definition hex_value :: "code_unit \<Rightarrow> nat option" where
  "hex_value c =
     (if 0x30 \<le> c \<and> c \<le> 0x39 then Some (c - 0x30)
      else if 0x41 \<le> c \<and> c \<le> 0x46 then Some (c - 0x37)
      else if 0x61 \<le> c \<and> c \<le> 0x66 then Some (c - 0x57)
      else None)"

definition hex4 :: "code_unit \<Rightarrow> code_unit \<Rightarrow> code_unit \<Rightarrow> code_unit \<Rightarrow> code_unit option" where
  "hex4 a b c d =
     (case (hex_value a, hex_value b, hex_value c, hex_value d) of
        (Some x, Some y, Some z, Some w) \<Rightarrow> Some (((x * 16 + y) * 16 + z) * 16 + w)
      | _ \<Rightarrow> None)"

definition simple_escape :: "code_unit \<Rightarrow> code_unit option" where
  "simple_escape e =
     (if e = 0x22 then Some 0x22
      else if e = 0x5C then Some 0x5C
      else if e = 0x2F then Some 0x2F
      else if e = 0x62 then Some 0x08
      else if e = 0x66 then Some 0x0C
      else if e = 0x6E then Some 0x0A
      else if e = 0x72 then Some 0x0D
      else if e = 0x74 then Some 0x09
      else None)"

definition with_unit :: "code_unit \<Rightarrow> (jsstring \<times> jsstring) option \<Rightarrow> (jsstring \<times> jsstring) option" where
  "with_unit u r = (case r of None \<Rightarrow> None | Some (s, rest) \<Rightarrow> Some (u # s, rest))"

text \<open>
  The text after an opening quote: the string it holds and what follows the closing
  quote. A raw control character, an unknown escape and a missing closing quote fail.
\<close>

fun lex_string :: "jsstring \<Rightarrow> (jsstring \<times> jsstring) option" where
  "lex_string [] = None"
| "lex_string (c # cs) =
     (if c = 0x22 then Some ([], cs)
      else if c = 0x5C then
        (case cs of
           [] \<Rightarrow> None
         | e # es \<Rightarrow>
             if e = 0x75 then
               (case es of
                  h1 # h2 # h3 # h4 # rest \<Rightarrow>
                    (case hex4 h1 h2 h3 h4 of
                       None \<Rightarrow> None
                     | Some u \<Rightarrow> with_unit u (lex_string rest))
                | _ \<Rightarrow> None)
             else
               (case simple_escape e of
                  None \<Rightarrow> None
                | Some u \<Rightarrow> with_unit u (lex_string es)))
      else if c < 0x20 then None
      else with_unit c (lex_string cs))"

definition isDigit :: "code_unit \<Rightarrow> bool" where
  "isDigit c = (0x30 \<le> c \<and> c \<le> 0x39)"

definition isNumberChar :: "code_unit \<Rightarrow> bool" where
  "isNumberChar c = (isDigit c \<or> c = 0x2B \<or> c = 0x2D \<or> c = 0x2E \<or> c = 0x45 \<or> c = 0x65)"

definition is_exponent :: "jsstring \<Rightarrow> bool" where
  "is_exponent s =
     (case s of
        [] \<Rightarrow> True
      | c # r \<Rightarrow>
          (c = 0x45 \<or> c = 0x65) \<and>
          (let ds = (case r of [] \<Rightarrow> [] | g # t \<Rightarrow> if g = 0x2B \<or> g = 0x2D then t else r)
           in ds \<noteq> [] \<and> list_all isDigit ds))"

definition is_fraction :: "jsstring \<Rightarrow> bool" where
  "is_fraction s =
     (case s of
        [] \<Rightarrow> True
      | c # r \<Rightarrow>
          if c = 0x2E then takeWhile isDigit r \<noteq> [] \<and> is_exponent (dropWhile isDigit r)
          else is_exponent s)"

definition is_number :: "jsstring \<Rightarrow> bool" where
  "is_number s =
     (case (case s of [] \<Rightarrow> [] | c # r \<Rightarrow> if c = 0x2D then r else s) of
        [] \<Rightarrow> False
      | d # r \<Rightarrow>
          if d = 0x30 then is_fraction r
          else isDigit d \<and> is_fraction (dropWhile isDigit r))"

definition isJsonWhiteSpace :: "code_unit \<Rightarrow> bool" where
  "isJsonWhiteSpace c = (c = 0x09 \<or> c = 0x0A \<or> c = 0x0D \<or> c = 0x20)"

definition with_token :: "token \<Rightarrow> token list option \<Rightarrow> token list option" where
  "with_token t r = (case r of None \<Rightarrow> None | Some ts \<Rightarrow> Some (t # ts))"

lemma with_unit_Some: "with_unit u r = Some (v, rest) \<Longrightarrow> \<exists>w. r = Some (w, rest)"
  by (auto simp: with_unit_def split: option.splits)

lemma lex_string_shorter: "lex_string s = Some (v, rest) \<Longrightarrow> length rest < length s"
proof (induction "length s" arbitrary: s v rest rule: less_induct)
  case less
  show ?case
  proof (cases s)
    case Nil
    with less.prems show ?thesis by simp
  next
    case (Cons c cs)
    note s = Cons
    have step: "length rest < length s"
      if "with_unit u (lex_string r) = Some (v, rest)" and "length r < length s" for u r
    proof -
      from that(1) obtain w where "lex_string r = Some (w, rest)"
        using with_unit_Some by blast
      with less.hyps [OF that(2)] have "length rest < length r" by blast
      with that(2) show ?thesis by simp
    qed
    show ?thesis
    proof (cases "c = 0x22")
      case True
      with less.prems s show ?thesis by simp
    next
      case quote: False
      show ?thesis
      proof (cases "c = 0x5C")
        case False
        with quote less.prems s have "with_unit c (lex_string cs) = Some (v, rest)"
          by (simp split: if_splits)
        then show ?thesis using step s by simp
      next
        case True
        show ?thesis
        proof (cases cs)
          case Nil
          with True quote less.prems s show ?thesis by simp
        next
          case (Cons e es)
          note cs = Cons
          show ?thesis
          proof (cases "e = 0x75")
            case False
            with True quote less.prems s cs obtain u
              where "with_unit u (lex_string es) = Some (v, rest)"
              by (auto split: option.splits)
            then show ?thesis using step s cs by simp
          next
            case True
            with \<open>c = 0x5C\<close> quote less.prems s cs obtain h1 h2 h3 h4 r u
              where "es = h1 # h2 # h3 # h4 # r" and "with_unit u (lex_string r) = Some (v, rest)"
              by (auto split: list.splits option.splits)
            then show ?thesis using step s cs by simp
          qed
        qed
      qed
    qed
  qed
qed

function tokenize :: "jsstring \<Rightarrow> token list option" where
  "tokenize [] = Some []"
| "tokenize (c # cs) =
     (if isJsonWhiteSpace c then tokenize cs
      else if c = 0x7B then with_token TLBrace (tokenize cs)
      else if c = 0x7D then with_token TRBrace (tokenize cs)
      else if c = 0x5B then with_token TLBracket (tokenize cs)
      else if c = 0x5D then with_token TRBracket (tokenize cs)
      else if c = 0x3A then with_token TColon (tokenize cs)
      else if c = 0x2C then with_token TComma (tokenize cs)
      else if c = 0x22 then
        (case lex_string cs of
           None \<Rightarrow> None
         | Some (s, rest) \<Rightarrow> with_token (TString s) (tokenize rest))
      else if isDigit c \<or> c = 0x2D then
        (if is_number (c # takeWhile isNumberChar cs)
         then with_token (TNumber (c # takeWhile isNumberChar cs)) (tokenize (dropWhile isNumberChar cs))
         else None)
      else if take 3 cs = js ''rue'' \<and> c = 0x74 then with_token TTrue (tokenize (drop 3 cs))
      else if take 4 cs = js ''alse'' \<and> c = 0x66 then with_token TFalse (tokenize (drop 4 cs))
      else if take 3 cs = js ''ull'' \<and> c = 0x6E then with_token TNull (tokenize (drop 3 cs))
      else None)"
  by pat_completeness auto
termination
proof (relation "measure length")
  fix c cs x2 s rest
  assume "lex_string cs = Some x2" and "(s, rest) = x2"
  then have "length rest < length cs" using lex_string_shorter by metis
  then show "(rest, c # cs) \<in> measure length" by simp
qed (auto simp: less_Suc_eq_le length_dropWhile_le)

text \<open>
  CreateDataProperty on the object being built: a key seen before keeps its place and
  takes the new value, so of two members with one key the later value wins.
\<close>

fun obj_put :: "jsstring \<Rightarrow> json \<Rightarrow> (jsstring \<times> json) list \<Rightarrow> (jsstring \<times> json) list" where
  "obj_put k v [] = [(k, v)]"
| "obj_put k v (m # ms) = (if fst m = k then (k, v) # ms else m # obj_put k v ms)"

datatype frame = FArr "json list" | FObj "(jsstring \<times> json) list" "jsstring option"

datatype mode =
    ExpectValue
  | ExpectValueOrEnd
  | ExpectKeyOrEnd
  | ExpectKey
  | ExpectColon
  | ExpectCommaOrEnd
  | Finished json

text \<open>A finished value goes to the container on top of the stack, or is the result.\<close>

fun deliver :: "json \<Rightarrow> frame list \<Rightarrow> (frame list \<times> mode) option" where
  "deliver v [] = Some ([], Finished v)"
| "deliver v (FArr xs # st) = Some (FArr (xs @ [v]) # st, ExpectCommaOrEnd)"
| "deliver v (FObj ms (Some k) # st) = Some (FObj (obj_put k v ms) None # st, ExpectCommaOrEnd)"
| "deliver v (FObj ms None # st) = None"

fun start_value :: "token \<Rightarrow> frame list \<Rightarrow> (frame list \<times> mode) option" where
  "start_value (TString s) st = deliver (JStr s) st"
| "start_value (TNumber n) st = deliver (JNum n) st"
| "start_value TTrue st = deliver (JBool True) st"
| "start_value TFalse st = deliver (JBool False) st"
| "start_value TNull st = deliver JNull st"
| "start_value TLBracket st = Some (FArr [] # st, ExpectValueOrEnd)"
| "start_value TLBrace st = Some (FObj [] None # st, ExpectKeyOrEnd)"
| "start_value _ st = None"

fun close_array :: "frame list \<Rightarrow> (frame list \<times> mode) option" where
  "close_array (FArr xs # st) = deliver (JArr xs) st"
| "close_array _ = None"

fun close_object :: "frame list \<Rightarrow> (frame list \<times> mode) option" where
  "close_object (FObj ms _ # st) = deliver (JObj ms) st"
| "close_object _ = None"

fun take_key :: "token \<Rightarrow> frame list \<Rightarrow> (frame list \<times> mode) option" where
  "take_key (TString k) (FObj ms _ # st) = Some (FObj ms (Some k) # st, ExpectColon)"
| "take_key _ _ = None"

fun feed :: "frame list \<times> mode \<Rightarrow> token \<Rightarrow> (frame list \<times> mode) option" where
  "feed (st, ExpectValue) t = start_value t st"
| "feed (st, ExpectValueOrEnd) t = (if t = TRBracket then close_array st else start_value t st)"
| "feed (st, ExpectKeyOrEnd) t = (if t = TRBrace then close_object st else take_key t st)"
| "feed (st, ExpectKey) t = take_key t st"
| "feed (st, ExpectColon) t = (if t = TColon then Some (st, ExpectValue) else None)"
| "feed (st, ExpectCommaOrEnd) t =
     (if t = TComma then
        (case st of
           FArr xs # _ \<Rightarrow> Some (st, ExpectValue)
         | FObj ms k # _ \<Rightarrow> Some (st, ExpectKey)
         | [] \<Rightarrow> None)
      else if t = TRBracket then close_array st
      else if t = TRBrace then close_object st
      else None)"
| "feed (st, Finished v) t = None"

fun feed_all :: "frame list \<times> mode \<Rightarrow> token list \<Rightarrow> (frame list \<times> mode) option" where
  "feed_all s [] = Some s"
| "feed_all s (t # ts) = (case feed s t of None \<Rightarrow> None | Some s' \<Rightarrow> feed_all s' ts)"

definition JSON_parse :: "jsstring \<Rightarrow> json option" where
  "JSON_parse text_in =
     (case tokenize text_in of
        None \<Rightarrow> None
      | Some ts \<Rightarrow>
          (case feed_all ([], ExpectValue) ts of
             Some ([], Finished v) \<Rightarrow> Some v
           | _ \<Rightarrow> None))"

subsection \<open>Errors\<close>

text \<open>
  What the route can throw: \<open>new Error(message)\<close>, the TypeError and SyntaxError of
  the runtime (all three are instances of \<open>Error\<close> and carry a message), and a value
  that is not an \<open>Error\<close>. The wording of the runtime's own messages is not fixed by
  the language; the model writes one text for each.
\<close>

datatype exn = Error jsstring | TypeError jsstring | SyntaxError jsstring | NonError

fun message :: "exn \<Rightarrow> jsstring option" where
  "message (Error m) = Some m"
| "message (TypeError m) = Some m"
| "message (SyntaxError m) = Some m"
| "message NonError = None"

definition json_syntax_error :: exn where
  "json_syntax_error = SyntaxError (js ''Unexpected token in JSON'')"

definition property_of_undefined :: exn where
  "property_of_undefined = TypeError (js ''Cannot read properties of undefined'')"

definition property_on_primitive :: exn where
  "property_on_primitive = TypeError (js ''Cannot create property on a primitive value'')"

subsection \<open>Constants and types of the route\<close>

definition SYSTEM_PROMPT :: jsstring where
  \<open>SYSTEM_PROMPT =
     js ''You are "Attack Path Reasoning Agent" '' @ [0x2014] @ js '' a defensive security assistant.\<newline>'' @
     js ''Goal: help users understand and reduce risk by reasoning about likely attack paths in a system, prioritizing fixes, and running what-if analysis.\<newline>'' @
     js ''\<newline>'' @
     js ''Strict safety rules:\<newline>'' @
     js ''- Do NOT provide step-by-step exploitation instructions, weaponized payloads, malware, or instructions to gain unauthorized access.\<newline>'' @
     js ''- Do NOT output specific exploit code or commands to compromise systems.\<newline>'' @
     js ''- You MAY discuss vulnerabilities at a high level, risk implications, detection ideas, and remediation/mitigation steps.\<newline>'' @
     js ''- If the user asks for offensive instructions, refuse and redirect to defensive guidance.\<newline>'' @
     js ''\<newline>'' @
     js ''Operating principles:\<newline>'' @
     js ''- Assume the target is an authorized, controlled environment (e.g., deliberately vulnerable demo app).\<newline>'' @
     js ''- Prefer reasoning and clear explanations over listing generic vulnerabilities.\<newline>'' @
     js ''- Focus on attack chains (how small issues combine), not just single findings.\<newline>'' @
     js ''- Be concrete: reference the provided architecture/config/log/code snippets.\<newline>'' @
     js ''- Be honest about uncertainty; if inputs are missing, state assumptions.\<newline>'' @
     js ''\<newline>'' @
     js ''Output requirements:\<newline>'' @
     js ''- Always produce a structured response in the specified JSON format.\<newline>'' @
     js ''- Keep it actionable for defenders: prioritize fixes by risk reduction and feasibility.''\<close>

definition DEVELOPER_PROMPT :: jsstring where
  \<open>DEVELOPER_PROMPT =
     js ''You will receive:\<newline>'' @
     js ''(A) System description (text), optionally (B) an architecture diagram summary, (C) config/log/code excerpts, and (D) an optional "what_if" change.\<newline>'' @
     js ''\<newline>'' @
     js ''Tasks:\<newline>'' @
     js ''1) Summarize system components and trust boundaries.\<newline>'' @
     js ''2) Identify 1'' @ [0x2013] @ js ''3 plausible attacker entry points (defensive, high-level).\<newline>'' @
     js ''3) Construct up to 2 attack paths (chains) from entry '' @ [0x2192] @ js '' impact.\<newline>'' @
     js ''   - Each step must be described WITHOUT exploit instructions.\<newline>'' @
     js ''   - Each step must include: why it is plausible, required preconditions, and defensive signals to watch.\<newline>'' @
     js ''4) Provide a prioritized mitigation plan that breaks the chain early.\<newline>'' @
     js ''5) If "what_if" is provided, update the attack paths and mitigation priorities accordingly, and explain what changed.\<newline>'' @
     js ''\<newline>'' @
     js ''Return JSON exactly following this schema:\<newline>'' @
     js ''{\<newline>'' @
     js ''  "system_summary": {\<newline>'' @
     js ''    "assets": ["..."],\<newline>'' @
     js ''    "components": ["..."],\<newline>'' @
     js ''    "trust_boundaries": ["..."],\<newline>'' @
     js ''    "assumptions": ["..."]\<newline>'' @
     js ''  },\<newline>'' @
     js ''  "top_risks": [\<newline>'' @
     js ''    {"risk": "...", "why_it_matters": "...", "likelihood": "low|medium|high", "impact": "low|medium|high"}\<newline>'' @
     js ''  ],\<newline>'' @
     js ''  "attack_paths": [\<newline>'' @
     js ''    {\<newline>'' @
     js ''      "name": "...",\<newline>'' @
     js ''      "entry_point": "...",\<newline>'' @
     js ''      "preconditions": ["..."],\<newline>'' @
     js ''      "steps": [\<newline>'' @
     js ''        {\<newline>'' @
     js ''          "step": 1,\<newline>'' @
     js ''          "action_high_level": "...",\<newline>'' @
     js ''          "why_plausible": "...",\<newline>'' @
     js ''          "defender_signals": ["..."],\<newline>'' @
     js ''          "mitigations": ["..."]\<newline>'' @
     js ''        }\<newline>'' @
     js ''      ],\<newline>'' @
     js ''      "end_impact": "...",\<newline>'' @
     js ''      "overall_risk": "low|medium|high"\<newline>'' @
     js ''    }\<newline>'' @
     js ''  ],\<newline>'' @
     js ''  "what_if": {\<newline>'' @
     js ''    "change": "...",\<newline>'' @
     js ''    "delta_summary": ["..."],\<newline>'' @
     js ''    "updated_risks": ["..."]\<newline>'' @
     js ''  },\<newline>'' @
     js ''  "priority_fixes": [\<newline>'' @
     js ''    {"fix": "...", "breaks_chain_at": "path_name:step#", "effort": "low|medium|high", "risk_reduction": "low|medium|high"}\<newline>'' @
     js ''  ],\<newline>'' @
     js ''  "safe_notes": ["..."]\<newline>'' @
     js ''}\<newline>'' @
     js ''\<newline>'' @
     js ''Formatting rules:\<newline>'' @
     js ''- No markdown fences in the final output, only JSON.\<newline>'' @
     js ''- No offensive payloads, no commands for compromise.\<newline>'' @
     js ''- Keep each string concise; this is for an interactive demo UI.''\<close>

definition MAX_TOTAL_CHARS :: nat where
  "MAX_TOTAL_CHARS = 25000"

record part =
  part_text :: "jsstring option"

record content_t =
  parts :: "part list option"

record candidate =
  content :: "content_t option"

record GeminiResponse =
  candidates :: "candidate list option"

record snippets_t =
  config :: "jsstring option"
  logs :: "jsstring option"
  code :: "jsstring option"

text \<open>
  \<open>AnalysisInput\<close> as the handler meets it: the body is cast, not checked, so
  \<open>system_text\<close> can be absent although its type says \<open>string\<close>. An optional
  field and a \<open>null\<close> are both \<open>None\<close>.
\<close>

record AnalysisInput =
  project_name :: "jsstring option"
  system_text :: "jsstring option"
  diagram_summary :: "jsstring option"
  snippets :: "snippets_t option"
  what_if :: "jsstring option"

subsection \<open>buildUserPrompt, totalInputLength, extractText\<close>

text \<open>\<open>input.snippets?.f\<close>\<close>

definition snippet :: "(snippets_t \<Rightarrow> jsstring option) \<Rightarrow> AnalysisInput \<Rightarrow> jsstring option" where
  "snippet f inp = (case snippets inp of None \<Rightarrow> None | Some sn \<Rightarrow> f sn)"

definition buildUserPrompt :: "AnalysisInput \<Rightarrow> jsstring" where
  "buildUserPrompt inp =
     js ''system_text:\<newline>'' @ interpolate (system_text inp) @ js ''\<newline>\<newline>'' @
     js ''diagram_summary:\<newline>'' @ nullish (diagram_summary inp) [] @ js ''\<newline>\<newline>'' @
     js ''snippets:\<newline>config:\<newline>'' @ nullish (snippet config inp) [] @
     js ''\<newline>logs:\<newline>'' @ nullish (snippet logs inp) [] @
     js ''\<newline>code:\<newline>'' @ nullish (snippet code inp) [] @ js ''\<newline>\<newline>'' @
     js ''what_if:\<newline>'' @ nullish (what_if inp) (js ''NONE'')"

text \<open>\<open>x?.length ?? 0\<close>\<close>

definition length_or_0 :: "jsstring option \<Rightarrow> nat" where
  "length_or_0 x = (case x of None \<Rightarrow> 0 | Some s \<Rightarrow> length s)"

text \<open>Reading \<open>.length\<close> of an absent \<open>system_text\<close> throws.\<close>

definition totalInputLength :: "AnalysisInput \<Rightarrow> exn + nat" where
  "totalInputLength inp =
     (case system_text inp of
        None \<Rightarrow> Inl property_of_undefined
      | Some s \<Rightarrow>
          Inr (length s +
               length_or_0 (diagram_summary inp) +
               length_or_0 (snippet config inp) +
               length_or_0 (snippet logs inp) +
               length_or_0 (snippet code inp)))"

text \<open>
  \<open>response.candidates?.[0]?.content?.parts?.map((part) => part.text ?? "")\<close>:
  absent as soon as a link of the chain is.
\<close>

definition fragments :: "GeminiResponse \<Rightarrow> jsstring list option" where
  "fragments response =
     (case candidates response of
        None \<Rightarrow> None
      | Some [] \<Rightarrow> None
      | Some (first # _) \<Rightarrow>
          (case content first of
             None \<Rightarrow> None
           | Some c \<Rightarrow>
               (case parts c of
                  None \<Rightarrow> None
                | Some ps \<Rightarrow> Some (map (\<lambda>p. nullish (part_text p) []) ps))))"

definition extractText :: "GeminiResponse \<Rightarrow> jsstring" where
  "extractText response =
     (let joined = map_option concat (fragments response)
      in nullish (map_option trim joined) [])"

subsection \<open>The model backend and callGemini\<close>

text \<open>
  A call is the URL and the messages posted (the generation configuration is the same in
  every call). The backend is outside the program: it is a function from the number of
  calls made so far and the call to what \<open>fetch\<close> does, which is to reject, or to
  answer with a status, a body as text and the body read as JSON. The list of calls made
  is threaded through the functions that call. A call that never settles is not
  modelled: the route sets no timeout, and would wait with it.
\<close>

record message_t =
  role :: jsstring
  message_parts :: "jsstring list"

record call =
  url :: jsstring
  contents :: "message_t list"

datatype outcome =
    Rejects exn
  | Responds nat "exn + jsstring" "exn + GeminiResponse"

type_synonym backend = "nat \<Rightarrow> call \<Rightarrow> outcome"

definition ok :: "nat \<Rightarrow> bool" where
  "ok st = (200 \<le> st \<and> st \<le> 299)"

definition gemini_request :: "jsstring \<Rightarrow> jsstring \<Rightarrow> message_t list \<Rightarrow> call" where
  "gemini_request apiKey model messages =
     \<lparr>url = js ''https://generativelanguage.googleapis.com/v1beta/models/'' @ model @
            js '':generateContent?key='' @ apiKey,
      contents = messages\<rparr>"

definition callGemini ::
  "backend \<Rightarrow> jsstring \<Rightarrow> jsstring \<Rightarrow> message_t list \<Rightarrow> call list \<Rightarrow> (exn + GeminiResponse) \<times> call list" where
  "callGemini w apiKey model messages calls =
     (let request = gemini_request apiKey model messages;
          calls' = calls @ [request]
      in case w (length calls) request of
           Rejects e \<Rightarrow> (Inl e, calls')
         | Responds st body_text body_json \<Rightarrow>
             if \<not> ok st then
               (case body_text of
                  Inl e \<Rightarrow> (Inl e, calls')
                | Inr details \<Rightarrow>
                    (Inl (Error (js ''Gemini API error: '' @ decimal st @ js '' '' @ details)), calls'))
             else (body_json, calls'))"

subsection \<open>parseGeminiJson\<close>

definition baseMessages :: "jsstring \<Rightarrow> message_t list" where
  "baseMessages userPrompt =
     [\<lparr>role = js ''system'', message_parts = [SYSTEM_PROMPT]\<rparr>,
      \<lparr>role = js ''user'', message_parts = [DEVELOPER_PROMPT]\<rparr>,
      \<lparr>role = js ''user'', message_parts = [userPrompt]\<rparr>]"

definition repairMessages :: "jsstring \<Rightarrow> message_t list" where
  "repairMessages initialText =
     [\<lparr>role = js ''system'', message_parts = [SYSTEM_PROMPT]\<rparr>,
      \<lparr>role = js ''user'',
       message_parts = [js ''Return valid JSON only matching the required schema. Fix the following output.'']\<rparr>,
      \<lparr>role = js ''user'', message_parts = [initialText]\<rparr>]"

definition parseGeminiJson ::
  "backend \<Rightarrow> jsstring \<Rightarrow> jsstring \<Rightarrow> jsstring \<Rightarrow> call list \<Rightarrow> (exn + json \<times> jsstring) \<times> call list" where
  "parseGeminiJson w apiKey model userPrompt calls =
     (case callGemini w apiKey model (baseMessages userPrompt) calls of
        (Inl e, calls1) \<Rightarrow> (Inl e, calls1)
      | (Inr initialResponse, calls1) \<Rightarrow>
          (let initialText = extractText initialResponse in
           case JSON_parse initialText of
             Some parsed \<Rightarrow> (Inr (parsed, initialText), calls1)
           | None \<Rightarrow>
               (case callGemini w apiKey model (repairMessages initialText) calls1 of
                  (Inl e, calls2) \<Rightarrow> (Inl e, calls2)
                | (Inr repairResponse, calls2) \<Rightarrow>
                    (let repairText = extractText repairResponse in
                     case JSON_parse repairText of
                       Some parsed \<Rightarrow> (Inr (parsed, repairText), calls2)
                     | None \<Rightarrow>
                         (Inl (Error (if repairText = [] then initialText else repairText)), calls2)))))"

subsection \<open>The redaction of the answer (POST, lines 250 to 258)\<close>

definition DISCLOSURE :: jsstring where
  "DISCLOSURE = js ''Some potentially unsafe terms were redacted.''"

text \<open>
  \<open>sanitizedJson.safe_notes = Array.isArray(sanitizedJson.safe_notes) ? [note, ...old] : [note]\<close>.
  On an object the member is written (in place when it is there, else at the end). An
  array takes the property, but a property of an array that is not an element is not
  part of the JSON the response carries. The module is strict code, so on a string, a
  number or a boolean the assignment throws, and on \<open>null\<close> already the read does.
\<close>

fun set_safe_notes :: "json \<Rightarrow> exn + json" where
  "set_safe_notes (JObj ms) =
     Inr (JObj (obj_put (js ''safe_notes'')
                 (JArr (JStr DISCLOSURE #
                        (case map_of ms (js ''safe_notes'') of Some (JArr old) \<Rightarrow> old | _ \<Rightarrow> [])))
                 ms))"
| "set_safe_notes (JArr xs) = Inr (JArr xs)"
| "set_safe_notes JNull = Inl property_of_undefined"
| "set_safe_notes v = Inl property_on_primitive"

definition redactionFilter :: "json \<Rightarrow> exn + json" where
  "redactionFilter parsed =
     (let rawString = JSON_stringify parsed;
          r = sanitizeOutput rawString
      in case JSON_parse (sanitized r) of
           None \<Rightarrow> Inl json_syntax_error
         | Some sanitizedJson \<Rightarrow>
             if redacted r then set_safe_notes sanitizedJson else Inr sanitizedJson)"

subsection \<open>POST\<close>

record env =
  GEMINI_API_KEY :: "jsstring option"
  GEMINI_MODEL :: "jsstring option"

record response =
  status :: nat
  body :: json

definition error_response :: "jsstring \<Rightarrow> nat \<Rightarrow> response" where
  "error_response msg st = \<lparr>status = st, body = JObj [(js ''error'', JStr msg)]\<rparr>"

text \<open>\<open>!body.system_text || body.system_text.trim().length === 0\<close>\<close>

definition system_text_missing :: "AnalysisInput \<Rightarrow> bool" where
  "system_text_missing inp =
     (case system_text inp of
        None \<Rightarrow> True
      | Some s \<Rightarrow> s = [] \<or> length (trim s) = 0)"

text \<open>
  The body of the \<open>try\<close> block. \<open>request_json\<close> is what \<open>await request.json()\<close>
  gives: the body read as JSON, or the error it rejects with.
\<close>

definition POST_try :: "env \<Rightarrow> exn + AnalysisInput \<Rightarrow> backend \<Rightarrow> (exn + response) \<times> call list" where
  "POST_try e request_json w =
     (let apiKey = GEMINI_API_KEY e;
          model = nullish (GEMINI_MODEL e) (js ''gemini-3'')
      in if apiKey = None \<or> apiKey = Some [] then
           (Inr (error_response (js ''Missing GEMINI_API_KEY environment variable.'') 500), [])
         else
           (case request_json of
              Inl err \<Rightarrow> (Inl err, [])
            | Inr inp \<Rightarrow>
                if system_text_missing inp then
                  (Inr (error_response (js ''System snapshot is required.'') 400), [])
                else
                  (case totalInputLength inp of
                     Inl err \<Rightarrow> (Inl err, [])
                   | Inr total_length \<Rightarrow>
                       if total_length > MAX_TOTAL_CHARS then
                         (Inr (error_response
                                 (js ''Input too large. Please keep total input under 25k characters.'') 400), [])
                       else
                         (case parseGeminiJson w (nullish apiKey []) model (buildUserPrompt inp) [] of
                            (Inl err, calls) \<Rightarrow> (Inl err, calls)
                          | (Inr (parsed, raw), calls) \<Rightarrow>
                              (case redactionFilter parsed of
                                 Inl err \<Rightarrow> (Inl err, calls)
                               | Inr sanitizedJson \<Rightarrow>
                                   (Inr \<lparr>status = 200, body = sanitizedJson\<rparr>, calls))))))"

text \<open>
  The \<open>catch\<close> block: \<open>details\<close> is the message of an \<open>Error\<close>, and
  \<open>raw_output\<close>, being \<open>undefined\<close> for any other value, is then left out of the
  JSON of the response.
\<close>

definition catch_response :: "exn \<Rightarrow> response" where
  "catch_response err =
     \<lparr>status = 500,
      body = JObj ([(js ''error'', JStr (js ''Failed to analyze attack paths.'')),
                    (js ''details'', JStr (nullish (message err) (js ''Unknown error.'')))] @
                   (case message err of None \<Rightarrow> [] | Some m \<Rightarrow> [(js ''raw_output'', JStr m)]))\<rparr>"

definition POST :: "env \<Rightarrow> exn + AnalysisInput \<Rightarrow> backend \<Rightarrow> response \<times> call list" where
  "POST e request_json w =
     (case POST_try e request_json w of
        (Inr r, calls) \<Rightarrow> (r, calls)
      | (Inl err, calls) \<Rightarrow> (catch_response err, calls))"

subsection \<open>Notions used to state the properties\<close>

text \<open>
  A keyword occurs in a text as a substring, ignoring case: the reading of the keyword
  list as plain words, against which the patterns of \<open>sanitizeOutput\<close> are compared.
\<close>

fun ci_prefix :: "jsstring \<Rightarrow> jsstring \<Rightarrow> bool" where
  "ci_prefix [] s = True"
| "ci_prefix (k # ks) [] = False"
| "ci_prefix (k # ks) (c # cs) = (canonicalize k = canonicalize c \<and> ci_prefix ks cs)"

fun ci_substring :: "jsstring \<Rightarrow> jsstring \<Rightarrow> bool" where
  "ci_substring k [] = ci_prefix k []"
| "ci_substring k (c # cs) = (ci_prefix k (c # cs) \<or> ci_substring k cs)"

definition mentions_keyword :: "jsstring \<Rightarrow> bool" where
  "mentions_keyword s = list_ex (\<lambda>k. ci_substring k s) EXPLOIT_KEYWORDS"

text \<open>
  For the proof that no keyword is left in the sanitised text. \<open>compat p s\<close>: the
  pattern agrees with the text \<open>s\<close> as far as \<open>s\<close> goes. A pattern is isolated from a
  marker when no match can share a code unit with the marker: no end of the pattern
  agrees with the start of the marker, and the pattern agrees with no end of the marker.
\<close>

fun compat :: "atom list \<Rightarrow> jsstring \<Rightarrow> bool" where
  "compat [] s = True"
| "compat (a # as) [] = True"
| "compat (a # as) (c # cs) = (atom_matches a c \<and> compat as cs)"

fun no_compat_suffix :: "atom list \<Rightarrow> jsstring \<Rightarrow> bool" where
  "no_compat_suffix [] r = True"
| "no_compat_suffix (a # as) r = (\<not> compat (a # as) r \<and> no_compat_suffix as r)"

fun no_compat_tail :: "atom list \<Rightarrow> jsstring \<Rightarrow> bool" where
  "no_compat_tail p [] = True"
| "no_compat_tail p (c # cs) = (\<not> compat p (c # cs) \<and> no_compat_tail p cs)"

definition isolated :: "atom list \<Rightarrow> jsstring \<Rightarrow> bool" where
  "isolated p r = (p \<noteq> [] \<and> no_compat_suffix p r \<and> no_compat_tail p r)"

text \<open>
  The strings that are values in a JSON value, at any depth; the code units a string is
  serialised with unchanged, and the code units the keywords are made of.
\<close>

fun string_values :: "json \<Rightarrow> jsstring list" where
  "string_values (JStr s) = [s]"
| "string_values (JArr xs) = concat (map string_values xs)"
| "string_values (JObj ms) = concat (map (\<lambda>m. string_values (snd m)) ms)"
| "string_values v = []"

definition plain_unit :: "code_unit \<Rightarrow> bool" where
  "plain_unit c = (0x20 \<le> c \<and> c \<le> 0x7A \<and> c \<noteq> 0x22 \<and> c \<noteq> 0x5C)"

definition keyword_unit :: "code_unit \<Rightarrow> bool" where
  "keyword_unit c = ((0x61 \<le> c \<and> c \<le> 0x7A) \<or> c = 0x20 \<or> c = 0x2D \<or> c = 0x2E)"

text \<open>The \<open>error\<close> member of a response body, when it is a string.\<close>

definition error_field :: "response \<Rightarrow> jsstring option" where
  "error_field r =
     (case body r of
        JObj ms \<Rightarrow> (case map_of ms (js ''error'') of Some (JStr m) \<Rightarrow> Some m | _ \<Rightarrow> None)
      | _ \<Rightarrow> None)"

text \<open>The sum \<open>totalInputLength\<close> returns, and what \<open>POST\<close> does once the checks have passed.\<close>

definition five_fields :: "AnalysisInput \<Rightarrow> nat" where
  "five_fields inp =
     length_or_0 (system_text inp) + length_or_0 (diagram_summary inp) +
     length_or_0 (snippet config inp) + length_or_0 (snippet logs inp) +
     length_or_0 (snippet code inp)"

definition after_validation :: "backend \<Rightarrow> jsstring \<Rightarrow> jsstring \<Rightarrow> AnalysisInput \<Rightarrow> (exn + response) \<times> call list" where
  "after_validation w key model inp =
     (case parseGeminiJson w key model (buildUserPrompt inp) [] of
        (Inl err, calls) \<Rightarrow> (Inl err, calls)
      | (Inr (parsed, raw), calls) \<Rightarrow>
          (case redactionFilter parsed of
             Inl err \<Rightarrow> (Inl err, calls)
           | Inr sanitizedJson \<Rightarrow> (Inr \<lparr>status = 200, body = sanitizedJson\<rparr>, calls)))"

subsection \<open>Example inputs\<close>

text \<open>
  A backend answer with one candidate holding one text fragment; a backend that gives
  the answers of a list in turn; one that cannot be reached; one that answers 503.
\<close>

definition answering :: "jsstring \<Rightarrow> GeminiResponse" where
  "answering t = \<lparr>candidates = Some [\<lparr>content = Some \<lparr>parts = Some [\<lparr>part_text = Some t\<rparr>]\<rparr>\<rparr>]\<rparr>"

definition scripted :: "jsstring list \<Rightarrow> backend" where
  "scripted answers n c =
     (if n < length answers then Responds 200 (Inr []) (Inr (answering (answers ! n)))
      else Rejects NonError)"

definition unreachable :: backend where
  "unreachable n c = Rejects (TypeError (js ''fetch failed''))"


text \<open>
  An answer with two candidates, the first with three parts of which the second has no
  text; a backend that answers the primary call with text that is not JSON and cannot
  be reached for the repair call.
\<close>

definition two_candidates :: GeminiResponse where
  "two_candidates =
     \<lparr>candidates = Some
        [\<lparr>content = Some \<lparr>parts = Some
            [\<lparr>part_text = Some (js '' a'')\<rparr>, \<lparr>part_text = None\<rparr>, \<lparr>part_text = Some (js ''b '')\<rparr>]\<rparr>\<rparr>,
         \<lparr>content = Some \<lparr>parts = Some [\<lparr>part_text = Some (js ''z'')\<rparr>]\<rparr>\<rparr>]\<rparr>"


definition example_env :: env where
  "example_env = \<lparr>GEMINI_API_KEY = Some (js ''k''), GEMINI_MODEL = None\<rparr>"

definition no_key_env :: env where
  "no_key_env = \<lparr>GEMINI_API_KEY = None, GEMINI_MODEL = None\<rparr>"

definition request_with :: "jsstring option \<Rightarrow> jsstring option \<Rightarrow> AnalysisInput" where
  "request_with st wi =
     \<lparr>project_name = None, system_text = st, diagram_summary = None, snippets = None, what_if = wi\<rparr>"

section \<open>Properties\<close>

subsection \<open>Evaluation and small facts\<close>

lemma js_simps: "js [] = []" "js (c # cs) = of_char c # js cs"
  by (simp_all add: js_def unit_of_def)

lemma js_nonempty: "js (c # cs) \<noteq> []"
  by (simp add: js_def)

lemmas parse_eval = JSON_parse_def js_simps isJsonWhiteSpace_def with_token_def with_unit_def
  isDigit_def isNumberChar_def simple_escape_def hex4_def hex_value_def

lemmas sanitize_eval = sanitizeOutput_def EXPLOIT_KEYWORDS_def REDACTED_def js_simps RegExp_def
  replace_def canonicalize_def isLineTerminator_def

lemmas stringify_eval = JSON_stringify_def QuoteJSONString_def quote_unit_def js_simps
  isLeadingSurrogate_def isTrailingSurrogate_def

lemma ok_200: "ok 200"
  by (simp add: ok_def)

lemma trim_Nil: "trim [] = []"
  by (simp add: trim_def)

lemma trim_split:
  "s = takeWhile isWhiteSpace s @ trim s @ rev (takeWhile isWhiteSpace (rev (dropWhile isWhiteSpace s)))"
proof -
  let ?d = "dropWhile isWhiteSpace s"
  have "rev (takeWhile isWhiteSpace (rev ?d) @ dropWhile isWhiteSpace (rev ?d)) = ?d"
    by (simp only: takeWhile_dropWhile_id rev_rev_ident)
  then have "rev (dropWhile isWhiteSpace (rev ?d)) @ rev (takeWhile isWhiteSpace (rev ?d)) = ?d"
    by (simp only: rev_append)
  then have "trim s @ rev (takeWhile isWhiteSpace (rev ?d)) = ?d"
    by (simp only: trim_def)
  moreover have "takeWhile isWhiteSpace s @ ?d = s"
    by (rule takeWhile_dropWhile_id)
  ultimately show ?thesis by simp
qed

lemma trim_hd: "trim s \<noteq> [] \<Longrightarrow> \<not> isWhiteSpace (hd (trim s))"
proof -
  assume ne: "trim s \<noteq> []"
  let ?d = "dropWhile isWhiteSpace s"
  have d: "?d \<noteq> []"
  proof
    assume "?d = []"
    then have "trim s = []" by (simp only: trim_def rev.simps dropWhile.simps)
    with ne show False by simp
  qed
  then have hd_d: "\<not> isWhiteSpace (hd ?d)" by (rule hd_dropWhile)
  have "s = takeWhile isWhiteSpace s @ trim s @ rev (takeWhile isWhiteSpace (rev ?d))"
    by (rule trim_split)
  then have "takeWhile isWhiteSpace s @ ?d =
             takeWhile isWhiteSpace s @ trim s @ rev (takeWhile isWhiteSpace (rev ?d))"
    by (simp only: takeWhile_dropWhile_id)
  then have "?d = trim s @ rev (takeWhile isWhiteSpace (rev ?d))"
    by (simp only: same_append_eq)
  then have "hd ?d = hd (trim s @ rev (takeWhile isWhiteSpace (rev ?d)))" by simp
  also have "\<dots> = hd (trim s)" using ne by (rule hd_append2)
  finally show ?thesis using hd_d by simp
qed

lemma trim_last: "trim s \<noteq> [] \<Longrightarrow> \<not> isWhiteSpace (last (trim s))"
proof -
  assume ne: "trim s \<noteq> []"
  let ?t = "dropWhile isWhiteSpace (rev (dropWhile isWhiteSpace s))"
  have t: "trim s = rev ?t" by (simp add: trim_def)
  from ne t have "?t \<noteq> []" by simp
  then have "\<not> isWhiteSpace (hd ?t)" by (rule hd_dropWhile)
  moreover have "last (trim s) = hd ?t" using t \<open>?t \<noteq> []\<close> by (simp add: last_rev)
  ultimately show ?thesis by simp
qed

lemma trim_all_white: "list_all isWhiteSpace s \<Longrightarrow> trim s = []"
proof -
  assume "list_all isWhiteSpace s"
  then have "dropWhile isWhiteSpace s = []" by (simp add: list_all_iff)
  then show ?thesis by (simp only: trim_def rev.simps dropWhile.simps)
qed

lemma extractText_answering: "extractText (answering t) = trim t"
  by (simp add: extractText_def fragments_def answering_def nullish_def)

lemma trim_braces: "trim (js ''{}'') = js ''{}''"
  by (simp add: trim_def js_simps isWhiteSpace_def)

lemma trim_no: "trim (js ''no'') = js ''no''"
  by (simp add: trim_def js_simps isWhiteSpace_def)

lemma parse_braces: "JSON_parse (js ''{}'') = Some (JObj [])"
  by (simp add: parse_eval)

lemma parse_no: "JSON_parse (js ''no'') = None"
  by (simp add: parse_eval)

lemma sanitize_braces: "sanitizeOutput (js ''{}'') = \<lparr>sanitized = js ''{}'', redacted = False\<rparr>"
  by (simp add: sanitize_eval)

lemma redactionFilter_empty_object: "redactionFilter (JObj []) = Inr (JObj [])"
  using sanitize_braces parse_braces
  by (simp add: redactionFilter_def JSON_stringify_def Let_def)

subsection \<open>The JSON resolver\<close>

text \<open>
  C6. When the backend answers the primary call with a success status and the text
  extracted from the answer parses as JSON, \<open>parseGeminiJson\<close> returns the parsed value
  together with that text, and the primary call is the only call it adds to the calls
  made: no repair call is issued.
\<close>

theorem parseGeminiJson_first_parses:
  assumes "w (length calls) (gemini_request apiKey model (baseMessages userPrompt)) = Responds st t (Inr r)"
    and "ok st"
    and "JSON_parse (extractText r) = Some v"
  shows "parseGeminiJson w apiKey model userPrompt calls =
           (Inr (v, extractText r), calls @ [gemini_request apiKey model (baseMessages userPrompt)])"
  using assms by (simp add: parseGeminiJson_def callGemini_def Let_def)

theorem parseGeminiJson_first_parses_witness:
  "parseGeminiJson (scripted [js ''{}'']) (js ''k'') (js ''gemini-3'') (js ''x'') [] =
     (Inr (JObj [], js ''{}''), [gemini_request (js ''k'') (js ''gemini-3'') (baseMessages (js ''x''))])"
proof -
  have a: "scripted [js ''{}''] (length ([]::call list))
             (gemini_request (js ''k'') (js ''gemini-3'') (baseMessages (js ''x''))) =
           Responds 200 (Inr []) (Inr (answering (js ''{}'')))"
    by (simp add: scripted_def)
  have b: "JSON_parse (extractText (answering (js ''{}''))) = Some (JObj [])"
    by (simp add: extractText_answering trim_braces parse_braces)
  from parseGeminiJson_first_parses [where w = "scripted [js ''{}'']" and calls = "[]", OF a ok_200 b]
  show ?thesis by (simp add: extractText_answering trim_braces)
qed

text \<open>
  C2. When both calls are answered with a success status and neither extracted text
  parses as JSON, \<open>parseGeminiJson\<close> throws an \<open>Error\<close> whose message is the repaired
  text, or the first text when the repaired text is empty, and it has added exactly two
  calls to the calls made: the primary call and one repair call.
\<close>

theorem parseGeminiJson_both_fail:
  assumes "w (length calls) (gemini_request apiKey model (baseMessages userPrompt)) = Responds st1 t1 (Inr r1)"
    and "ok st1"
    and "JSON_parse (extractText r1) = None"
    and "w (Suc (length calls)) (gemini_request apiKey model (repairMessages (extractText r1))) =
           Responds st2 t2 (Inr r2)"
    and "ok st2"
    and "JSON_parse (extractText r2) = None"
  shows "parseGeminiJson w apiKey model userPrompt calls =
           (Inl (Error (if extractText r2 = [] then extractText r1 else extractText r2)),
            calls @ [gemini_request apiKey model (baseMessages userPrompt),
                     gemini_request apiKey model (repairMessages (extractText r1))])"
  using assms by (simp add: parseGeminiJson_def callGemini_def Let_def)

theorem parseGeminiJson_both_fail_witness:
  "parseGeminiJson (scripted [js ''no'', []]) (js ''k'') (js ''gemini-3'') (js ''x'') [] =
     (Inl (Error (js ''no'')),
      [gemini_request (js ''k'') (js ''gemini-3'') (baseMessages (js ''x'')),
       gemini_request (js ''k'') (js ''gemini-3'') (repairMessages (js ''no''))])"
proof -
  have a: "scripted [js ''no'', []] (length ([]::call list))
             (gemini_request (js ''k'') (js ''gemini-3'') (baseMessages (js ''x''))) =
           Responds 200 (Inr []) (Inr (answering (js ''no'')))"
    by (simp add: scripted_def)
  have b: "JSON_parse (extractText (answering (js ''no''))) = None"
    by (simp add: extractText_answering trim_no parse_no)
  have c: "scripted [js ''no'', []] (Suc (length ([]::call list)))
             (gemini_request (js ''k'') (js ''gemini-3'') (repairMessages (extractText (answering (js ''no''))))) =
           Responds 200 (Inr []) (Inr (answering []))"
    by (simp add: scripted_def)
  have t: "extractText (answering []) = []"
    by (simp add: extractText_answering trim_Nil)
  have d: "JSON_parse (extractText (answering [])) = None"
    by (simp add: t JSON_parse_def)
  from parseGeminiJson_both_fail [where w = "scripted [js ''no'', []]" and calls = "[]",
      OF a ok_200 b c ok_200 d]
  show ?thesis by (simp add: extractText_answering trim_no trim_Nil)
qed

subsection \<open>Text extraction and prompt assembly\<close>

lemma extractText_two_candidates: "extractText two_candidates = js ''ab''"
proof -
  have "fragments two_candidates = Some [js '' a'', [], js ''b '']"
    by (simp add: fragments_def two_candidates_def nullish_def)
  moreover have "trim (js '' ab '') = js ''ab''"
    by (simp add: trim_def js_simps isWhiteSpace_def)
  ultimately show ?thesis by (simp add: extractText_def nullish_def js_simps)
qed

text \<open>
  C8, as the code has it. When the response has a first candidate whose content has a
  list of parts, \<open>extractText\<close> returns the concatenation of the texts of all these
  parts (a part without text counting as empty) with the white space at both ends
  trimmed off: the concatenation is the result between two runs of white space, and a
  result that is not empty neither starts nor ends with white space. Later candidates
  are not read. When there are no candidates, the first candidate has no content or the
  content has no list of parts, the result is the empty string.
\<close>

theorem extractText_trimmed:
  "(candidates r = None \<or> candidates r = Some [] \<longrightarrow> extractText r = []) \<and>
   (\<forall>first others. candidates r = Some (first # others) \<longrightarrow>
      (content first = None \<longrightarrow> extractText r = []) \<and>
      (\<forall>c. content first = Some c \<longrightarrow>
         (parts c = None \<longrightarrow> extractText r = []) \<and>
         (\<forall>ps. parts c = Some ps \<longrightarrow>
            extractText r = trim (concat (map (\<lambda>p. case part_text p of None \<Rightarrow> [] | Some t \<Rightarrow> t) ps)) \<and>
            (\<exists>before after.
               concat (map (\<lambda>p. case part_text p of None \<Rightarrow> [] | Some t \<Rightarrow> t) ps) =
                 before @ extractText r @ after \<and>
               list_all isWhiteSpace before \<and> list_all isWhiteSpace after) \<and>
            (extractText r = [] \<or>
               \<not> isWhiteSpace (hd (extractText r)) \<and> \<not> isWhiteSpace (last (extractText r))))))"
proof -
  have none: "extractText r = []" if "fragments r = None"
    using that by (simp add: extractText_def nullish_def)
  have some: "extractText r = trim (concat (map (\<lambda>p. case part_text p of None \<Rightarrow> [] | Some t \<Rightarrow> t) ps)) \<and>
            (\<exists>before after.
               concat (map (\<lambda>p. case part_text p of None \<Rightarrow> [] | Some t \<Rightarrow> t) ps) =
                 before @ extractText r @ after \<and>
               list_all isWhiteSpace before \<and> list_all isWhiteSpace after) \<and>
            (extractText r = [] \<or>
               \<not> isWhiteSpace (hd (extractText r)) \<and> \<not> isWhiteSpace (last (extractText r)))"
    if "fragments r = Some (map (\<lambda>p. case part_text p of None \<Rightarrow> [] | Some t \<Rightarrow> t) ps)" for ps
  proof -
    let ?s = "concat (map (\<lambda>p. case part_text p of None \<Rightarrow> [] | Some t \<Rightarrow> t) ps)"
    from that have t: "extractText r = trim ?s" by (simp add: extractText_def nullish_def)
    have "?s = takeWhile isWhiteSpace ?s @ extractText r @
               rev (takeWhile isWhiteSpace (rev (dropWhile isWhiteSpace ?s)))"
      using trim_split [of ?s] t by simp
    moreover have "list_all isWhiteSpace (takeWhile isWhiteSpace ?s)"
      by (simp add: list_all_iff) (meson set_takeWhileD)
    moreover have "list_all isWhiteSpace (rev (takeWhile isWhiteSpace (rev (dropWhile isWhiteSpace ?s))))"
      by (simp add: list_all_iff) (meson set_takeWhileD)
    ultimately have "\<exists>before after. ?s = before @ extractText r @ after \<and>
         list_all isWhiteSpace before \<and> list_all isWhiteSpace after"
      by blast
    moreover have "extractText r = [] \<or>
         \<not> isWhiteSpace (hd (extractText r)) \<and> \<not> isWhiteSpace (last (extractText r))"
      using trim_hd [of ?s] trim_last [of ?s] t by auto
    ultimately show ?thesis using t by blast
  qed
  have f_none: "fragments r = None" if "candidates r = None \<or> candidates r = Some []"
    using that by (auto simp: fragments_def)
  have f_content: "fragments r = None" if "candidates r = Some (first # others)" "content first = None"
    for first others using that by (simp add: fragments_def)
  have f_parts: "fragments r = None"
    if "candidates r = Some (first # others)" "content first = Some c" "parts c = None"
    for first others c using that by (simp add: fragments_def)
  have f_some: "fragments r = Some (map (\<lambda>p. case part_text p of None \<Rightarrow> [] | Some t \<Rightarrow> t) ps)"
    if "candidates r = Some (first # others)" "content first = Some c" "parts c = Some ps"
    for first others c ps using that by (simp add: fragments_def nullish_def)
  show ?thesis
  proof (intro conjI allI impI)
    assume "candidates r = None \<or> candidates r = Some []"
    then show "extractText r = []" by (rule none [OF f_none])
  next
    fix first others
    assume "candidates r = Some (first # others)" "content first = None"
    then show "extractText r = []" by (rule none [OF f_content])
  next
    fix first others c
    assume "candidates r = Some (first # others)" "content first = Some c" "parts c = None"
    then show "extractText r = []" by (rule none [OF f_parts])
  next
    fix first others c ps
    assume "candidates r = Some (first # others)" "content first = Some c" "parts c = Some ps"
    then show "extractText r = trim (concat (map (\<lambda>p. case part_text p of None \<Rightarrow> [] | Some t \<Rightarrow> t) ps))"
      by (rule some [OF f_some, THEN conjunct1])
  next
    fix first others c ps
    assume "candidates r = Some (first # others)" "content first = Some c" "parts c = Some ps"
    then show "\<exists>before after.
               concat (map (\<lambda>p. case part_text p of None \<Rightarrow> [] | Some t \<Rightarrow> t) ps) =
                 before @ extractText r @ after \<and>
               list_all isWhiteSpace before \<and> list_all isWhiteSpace after"
      by (rule some [OF f_some, THEN conjunct2, THEN conjunct1])
  next
    fix first others c ps
    assume "candidates r = Some (first # others)" "content first = Some c" "parts c = Some ps"
    then show "extractText r = [] \<or>
               \<not> isWhiteSpace (hd (extractText r)) \<and> \<not> isWhiteSpace (last (extractText r))"
      by (rule some [OF f_some, THEN conjunct2, THEN conjunct2])
  qed
qed

theorem extractText_trimmed_witness:
  "extractText two_candidates = js ''ab'' \<and>
   (\<exists>before after. js '' a'' @ [] @ js ''b '' = before @ extractText two_candidates @ after \<and>
      list_all isWhiteSpace before \<and> list_all isWhiteSpace after)"
proof -
  let ?first = "\<lparr>content = Some \<lparr>parts = Some
            [\<lparr>part_text = Some (js '' a'')\<rparr>, \<lparr>part_text = None\<rparr>, \<lparr>part_text = Some (js ''b '')\<rparr>]\<rparr>\<rparr>"
  let ?c = "\<lparr>parts = Some
            [\<lparr>part_text = Some (js '' a'')\<rparr>, \<lparr>part_text = None\<rparr>, \<lparr>part_text = Some (js ''b '')\<rparr>]\<rparr>"
  let ?ps = "[\<lparr>part_text = Some (js '' a'')\<rparr>, \<lparr>part_text = None\<rparr>, \<lparr>part_text = Some (js ''b '')\<rparr>]"
  have a: "candidates two_candidates =
      Some (?first # [\<lparr>content = Some \<lparr>parts = Some [\<lparr>part_text = Some (js ''z'')\<rparr>]\<rparr>\<rparr>])"
    by (simp add: two_candidates_def)
  have b: "content ?first = Some ?c" by simp
  have c: "parts ?c = Some ?ps" by simp
  from extractText_trimmed [of two_candidates] a b c
  have "\<exists>before after.
          concat (map (\<lambda>p. case part_text p of None \<Rightarrow> [] | Some t \<Rightarrow> t) ?ps) =
            before @ extractText two_candidates @ after \<and>
          list_all isWhiteSpace before \<and> list_all isWhiteSpace after"
    by blast
  then show ?thesis using extractText_two_candidates by simp
qed

text \<open>
  C8, as stated, fails: for the parts \<open>" a"\<close>, one without text and \<open>"b "\<close> the
  concatenation is \<open>" ab "\<close>, and \<open>extractText\<close> returns \<open>"ab"\<close>.
\<close>

theorem extractText_untrimmed_counterexample:
  "extractText two_candidates = js ''ab'' \<and>
   js '' a'' @ [] @ js ''b '' = js '' ab '' \<and>
   extractText two_candidates \<noteq> js '' a'' @ [] @ js ''b ''"
  by (simp add: extractText_two_candidates) (simp add: js_simps)

text \<open>
  C9. The user prompt is a function of the request alone, and of no field but these: it
  is the fixed labels with \<open>system_text\<close>, \<open>diagram_summary\<close> (empty when absent), the
  three snippets (each empty when absent, or when there are no snippets) and
  \<open>what_if\<close> (the text \<open>NONE\<close> when absent) put in, in this order.
\<close>

theorem buildUserPrompt_layout:
  "buildUserPrompt \<lparr>project_name = pn, system_text = Some s, diagram_summary = d, snippets = sn, what_if = wi\<rparr> =
     js ''system_text:\<newline>'' @ s @
     js ''\<newline>\<newline>diagram_summary:\<newline>'' @ (case d of None \<Rightarrow> [] | Some t \<Rightarrow> t) @
     js ''\<newline>\<newline>snippets:\<newline>config:\<newline>'' @
       (case sn of None \<Rightarrow> [] | Some x \<Rightarrow> (case config x of None \<Rightarrow> [] | Some t \<Rightarrow> t)) @
     js ''\<newline>logs:\<newline>'' @
       (case sn of None \<Rightarrow> [] | Some x \<Rightarrow> (case logs x of None \<Rightarrow> [] | Some t \<Rightarrow> t)) @
     js ''\<newline>code:\<newline>'' @
       (case sn of None \<Rightarrow> [] | Some x \<Rightarrow> (case code x of None \<Rightarrow> [] | Some t \<Rightarrow> t)) @
     js ''\<newline>\<newline>what_if:\<newline>'' @ (case wi of None \<Rightarrow> js ''NONE'' | Some t \<Rightarrow> t)"
  by (simp add: buildUserPrompt_def interpolate_def nullish_def snippet_def js_def
      split: option.splits)

subsection \<open>The checks of POST\<close>

lemma error_field_error_response: "error_field (error_response m st) = Some m"
  by (simp add: error_field_def error_response_def)

lemma status_error_response: "status (error_response m st) = st"
  by (simp add: error_response_def)

lemma error_field_catch_response:
  "error_field (catch_response err) = Some (js ''Failed to analyze attack paths.'')"
  by (simp add: error_field_def catch_response_def)

lemma status_catch_response: "status (catch_response err) = 500"
  by (simp add: catch_response_def)

lemma POST_try_no_key:
  "GEMINI_API_KEY e = None \<or> GEMINI_API_KEY e = Some [] \<Longrightarrow>
   POST_try e rq w = (Inr (error_response (js ''Missing GEMINI_API_KEY environment variable.'') 500), [])"
  by (simp add: POST_try_def Let_def)

lemma POST_try_bad_body:
  "GEMINI_API_KEY e = Some key \<Longrightarrow> key \<noteq> [] \<Longrightarrow> POST_try e (Inl err) w = (Inl err, [])"
  by (simp add: POST_try_def Let_def)

lemma POST_try_missing_text:
  "GEMINI_API_KEY e = Some key \<Longrightarrow> key \<noteq> [] \<Longrightarrow> system_text_missing inp \<Longrightarrow>
   POST_try e (Inr inp) w = (Inr (error_response (js ''System snapshot is required.'') 400), [])"
  by (simp add: POST_try_def Let_def)

lemma totalInputLength_present:
  "\<not> system_text_missing inp \<Longrightarrow> totalInputLength inp = Inr (five_fields inp)"
  by (auto simp: system_text_missing_def totalInputLength_def five_fields_def length_or_0_def
      split: option.splits)

lemma POST_try_too_large:
  "GEMINI_API_KEY e = Some key \<Longrightarrow> key \<noteq> [] \<Longrightarrow> \<not> system_text_missing inp \<Longrightarrow>
   MAX_TOTAL_CHARS < five_fields inp \<Longrightarrow>
   POST_try e (Inr inp) w =
     (Inr (error_response (js ''Input too large. Please keep total input under 25k characters.'') 400), [])"
  by (simp add: POST_try_def Let_def totalInputLength_present)

lemma POST_try_valid:
  "GEMINI_API_KEY e = Some key \<Longrightarrow> key \<noteq> [] \<Longrightarrow> \<not> system_text_missing inp \<Longrightarrow>
   five_fields inp \<le> MAX_TOTAL_CHARS \<Longrightarrow>
   POST_try e (Inr inp) w = after_validation w key (nullish (GEMINI_MODEL e) (js ''gemini-3'')) inp"
  by (simp add: POST_try_def Let_def totalInputLength_present after_validation_def nullish_def)

lemma after_validation_cases:
  "(\<exists>err calls. after_validation w key model inp = (Inl err, calls)) \<or>
   (\<exists>j calls. after_validation w key model inp = (Inr \<lparr>status = 200, body = j\<rparr>, calls))"
  by (auto simp: after_validation_def split: prod.splits sum.splits)



lemma after_validation_empty_object:
  "\<exists>calls. after_validation (scripted [js ''{}'']) key model inp =
            (Inr \<lparr>status = 200, body = JObj []\<rparr>, calls)"
proof -
  have a: "scripted [js ''{}''] (length ([]::call list)) (gemini_request key model (baseMessages (buildUserPrompt inp))) =
          Responds 200 (Inr []) (Inr (answering (js ''{}'')))"
    by (simp add: scripted_def)
  have b: "JSON_parse (extractText (answering (js ''{}''))) = Some (JObj [])"
    by (simp add: extractText_answering trim_braces parse_braces)
  have "parseGeminiJson (scripted [js ''{}'']) key model (buildUserPrompt inp) [] =
      (Inr (JObj [], extractText (answering (js ''{}''))),
       [] @ [gemini_request key model (baseMessages (buildUserPrompt inp))])"
    using a b ok_200 by (simp add: parseGeminiJson_def callGemini_def Let_def)
  then show ?thesis
    by (simp add: after_validation_def redactionFilter_empty_object)
qed

lemma example_key: "GEMINI_API_KEY example_env = Some (js ''k'')" "js ''k'' \<noteq> []"
  by (simp_all add: example_env_def js_simps)

lemma example_model: "nullish (GEMINI_MODEL example_env) (js ''gemini-3'') = js ''gemini-3''"
  by (simp add: example_env_def nullish_def)

lemma trim_x: "trim (js ''x'') = js ''x''"
  by (simp add: trim_def js_simps isWhiteSpace_def)

lemma request_present: "\<not> system_text_missing (request_with (Some (js ''x'')) wi)"
  by (simp add: system_text_missing_def request_with_def trim_x) (simp add: js_simps)

lemma request_five_fields: "five_fields (request_with (Some (js ''x'')) wi) = 1"
  by (simp add: five_fields_def request_with_def length_or_0_def snippet_def js_simps)

lemma request_valid: "five_fields (request_with (Some (js ''x'')) wi) \<le> MAX_TOTAL_CHARS"
  by (simp add: request_five_fields MAX_TOTAL_CHARS_def)

text \<open>
  C5, as the code has it. With the API key configured, a request whose \<open>system_text\<close>
  is absent, empty or white space only is answered with status 400 and the error
  \<open>System snapshot is required.\<close>, and no call to the backend is made.
\<close>

theorem POST_requires_system_text:
  assumes "GEMINI_API_KEY e = Some key" and "key \<noteq> []"
    and "system_text inp = None \<or> (\<exists>s. system_text inp = Some s \<and> list_all isWhiteSpace s)"
  shows "POST e (Inr inp) w = (error_response (js ''System snapshot is required.'') 400, [])"
proof -
  from assms(3) have "system_text_missing inp"
    by (auto simp: system_text_missing_def trim_all_white)
  then show ?thesis
    using POST_try_missing_text [OF assms(1,2)] by (simp add: POST_def)
qed

theorem POST_requires_system_text_witness:
  "POST example_env (Inr (request_with (Some (js ''  '')) None)) unreachable =
     (error_response (js ''System snapshot is required.'') 400, [])"
proof -
  have "list_all isWhiteSpace (js ''  '')" by (simp add: js_simps isWhiteSpace_def)
  then have "system_text (request_with (Some (js ''  '')) None) = None \<or>
    (\<exists>s. system_text (request_with (Some (js ''  '')) None) = Some s \<and> list_all isWhiteSpace s)"
    by (simp add: request_with_def)
  from POST_requires_system_text [OF example_key this] show ?thesis .
qed

text \<open>
  C5, as stated for every request, fails: the key is checked first, so without an API
  key a request with an empty \<open>system_text\<close> is answered with status 500 and the error
  \<open>Missing GEMINI_API_KEY environment variable.\<close>
\<close>

theorem POST_missing_key_counterexample:
  "system_text (request_with (Some []) None) = Some [] \<and>
   fst (POST no_key_env (Inr (request_with (Some []) None)) unreachable) =
     error_response (js ''Missing GEMINI_API_KEY environment variable.'') 500 \<and>
   status (fst (POST no_key_env (Inr (request_with (Some []) None)) unreachable)) = 500"
proof -
  have "GEMINI_API_KEY no_key_env = None \<or> GEMINI_API_KEY no_key_env = Some []"
    by (simp add: no_key_env_def)
  from POST_try_no_key [OF this] show ?thesis
    by (simp add: POST_def status_error_response request_with_def)
qed

text \<open>
  C4, as the code has it. For a request that has passed the checks before (the API key
  is configured and \<open>system_text\<close> is not blank), \<open>POST\<close> answers with status 400 and
  the error \<open>Input too large. Please keep total input under 25k characters.\<close> exactly
  when the lengths of \<open>system_text\<close>, \<open>diagram_summary\<close> and the three snippets add up
  to more than 25000; \<open>what_if\<close> is not counted.
\<close>

theorem POST_size_check:
  assumes "GEMINI_API_KEY e = Some key" and "key \<noteq> []"
    and "system_text inp = Some s" and "trim s \<noteq> []"
  shows "(fst (POST e (Inr inp) w) =
            error_response (js ''Input too large. Please keep total input under 25k characters.'') 400) =
         (25000 < length s + length_or_0 (diagram_summary inp) + length_or_0 (snippet config inp) +
                  length_or_0 (snippet logs inp) + length_or_0 (snippet code inp))"
proof -
  from assms(4) have "s \<noteq> []" using trim_Nil by auto
  with assms(3,4) have present: "\<not> system_text_missing inp"
    by (simp add: system_text_missing_def)
  have five: "five_fields inp = length s + length_or_0 (diagram_summary inp) +
      length_or_0 (snippet config inp) + length_or_0 (snippet logs inp) + length_or_0 (snippet code inp)"
    using assms(3) by (simp add: five_fields_def length_or_0_def)
  show ?thesis
  proof (cases "MAX_TOTAL_CHARS < five_fields inp")
    case True
    from POST_try_too_large [OF assms(1,2) present True]
    have "fst (POST e (Inr inp) w) =
            error_response (js ''Input too large. Please keep total input under 25k characters.'') 400"
      by (simp add: POST_def)
    with True five show ?thesis by (simp add: MAX_TOTAL_CHARS_def)
  next
    case False
    then have le: "five_fields inp \<le> MAX_TOTAL_CHARS" by simp
    from POST_try_valid [OF assms(1,2) present le]
    have "POST_try e (Inr inp) w = after_validation w key (nullish (GEMINI_MODEL e) (js ''gemini-3'')) inp" .
    with after_validation_cases [of w key "nullish (GEMINI_MODEL e) (js ''gemini-3'')" inp]
    have "status (fst (POST e (Inr inp) w)) = 500 \<or> status (fst (POST e (Inr inp) w)) = 200"
      by (auto simp: POST_def status_catch_response)
    then have "fst (POST e (Inr inp) w) \<noteq>
            error_response (js ''Input too large. Please keep total input under 25k characters.'') 400"
      by (auto simp: status_error_response)
    with False five show ?thesis by (simp add: MAX_TOTAL_CHARS_def)
  qed
qed

theorem POST_size_check_witness:
  "(fst (POST example_env (Inr (request_with (Some (js ''x'')) None)) unreachable) =
      error_response (js ''Input too large. Please keep total input under 25k characters.'') 400) =
   (25000 < length (js ''x'') + length_or_0 None + length_or_0 None + length_or_0 None + length_or_0 None)"
proof -
  have s: "system_text (request_with (Some (js ''x'')) None) = Some (js ''x'')"
    by (simp add: request_with_def)
  have t: "trim (js ''x'') \<noteq> []" by (simp add: trim_def js_simps isWhiteSpace_def)
  from POST_size_check [OF example_key s t, of unreachable] show ?thesis
    by (simp add: request_with_def snippet_def)
qed

text \<open>
  C4, as stated with \<open>what_if\<close> in the sum, fails: a request with a \<open>system_text\<close> of
  one character and a \<open>what_if\<close> of 25001 characters has more than 25000 characters in
  its text fields, and it passes the size check: with a backend that answers \<open>{}\<close> the
  response is that object with status 200.
\<close>

theorem POST_what_if_not_counted_counterexample:
  "25000 < length (js ''x'') + length (replicate 25001 (0x78::nat)) \<and>
   fst (POST example_env (Inr (request_with (Some (js ''x'')) (Some (replicate 25001 0x78))))
          (scripted [js ''{}''])) = \<lparr>status = 200, body = JObj []\<rparr>"
proof -
  have "POST_try example_env (Inr (request_with (Some (js ''x'')) (Some (replicate 25001 0x78)))) (scripted [js ''{}'']) =
        after_validation (scripted [js ''{}'']) (js ''k'') (nullish (GEMINI_MODEL example_env) (js ''gemini-3''))
          (request_with (Some (js ''x'')) (Some (replicate 25001 0x78)))"
    using example_key request_present request_valid by (rule POST_try_valid)
  moreover obtain calls where
    "after_validation (scripted [js ''{}'']) (js ''k'') (nullish (GEMINI_MODEL example_env) (js ''gemini-3''))
          (request_with (Some (js ''x'')) (Some (replicate 25001 0x78))) =
       (Inr \<lparr>status = 200, body = JObj []\<rparr>, calls)"
    using after_validation_empty_object by blast
  ultimately have "fst (POST example_env (Inr (request_with (Some (js ''x'')) (Some (replicate 25001 0x78))))
          (scripted [js ''{}''])) = \<lparr>status = 200, body = JObj []\<rparr>"
    by (simp add: POST_def)
  then show ?thesis by simp
qed

subsection \<open>Failures of the backend call\<close>




lemma catch_response_no_message:
  "message err = None \<Longrightarrow>
   catch_response err =
     \<lparr>status = 500,
      body = JObj [(js ''error'', JStr (js ''Failed to analyze attack paths.'')),
                   (js ''details'', JStr (js ''Unknown error.''))]\<rparr>"
  by (simp add: catch_response_def nullish_def)

lemma catch_response_explicit:
  "catch_response err =
     \<lparr>status = 500,
      body = JObj ([(js ''error'', JStr (js ''Failed to analyze attack paths.'')),
                    (js ''details'', JStr (case message err of None \<Rightarrow> js ''Unknown error.'' | Some m \<Rightarrow> m))] @
                   (case message err of None \<Rightarrow> [] | Some m \<Rightarrow> [(js ''raw_output'', JStr m)]))\<rparr>"
  by (simp add: catch_response_def nullish_def)




subsection \<open>Every request gets a response\<close>

lemma POST_try_cases:
  "(\<exists>err calls. POST_try e rq w = (Inl err, calls)) \<or>
   (\<exists>j calls. POST_try e rq w = (Inr \<lparr>status = 200, body = j\<rparr>, calls)) \<or>
   POST_try e rq w = (Inr (error_response (js ''Missing GEMINI_API_KEY environment variable.'') 500), []) \<or>
   POST_try e rq w = (Inr (error_response (js ''System snapshot is required.'') 400), []) \<or>
   POST_try e rq w =
     (Inr (error_response (js ''Input too large. Please keep total input under 25k characters.'') 400), [])"
proof (cases "GEMINI_API_KEY e = None \<or> GEMINI_API_KEY e = Some []")
  case True
  then show ?thesis using POST_try_no_key by blast
next
  case False
  then obtain key where key: "GEMINI_API_KEY e = Some key" "key \<noteq> []" by auto
  show ?thesis
  proof (cases rq)
    case (Inl err)
    then show ?thesis using POST_try_bad_body [OF key] by blast
  next
    case (Inr inp)
    show ?thesis
    proof (cases "system_text_missing inp")
      case True
      then show ?thesis using POST_try_missing_text [OF key] Inr by blast
    next
      case present: False
      show ?thesis
      proof (cases "MAX_TOTAL_CHARS < five_fields inp")
        case True
        then show ?thesis using POST_try_too_large [OF key present] Inr by blast
      next
        case False
        then have "five_fields inp \<le> MAX_TOTAL_CHARS" by simp
        then have "POST_try e rq w = after_validation w key (nullish (GEMINI_MODEL e) (js ''gemini-3'')) inp"
          using POST_try_valid [OF key present] Inr by simp
        then show ?thesis
          using after_validation_cases [of w key "nullish (GEMINI_MODEL e) (js ''gemini-3'')" inp]
          by auto
      qed
    qed
  qed
qed

text \<open>
  C10. Whatever the environment, the request and the backend do, \<open>POST\<close> returns a
  response, path by path: without an API key, status 500 and the error
  \<open>Missing GEMINI_API_KEY environment variable.\<close>; with a body that cannot be read,
  the response of the \<open>catch\<close> block; with a blank \<open>system_text\<close>, status 400 and
  \<open>System snapshot is required.\<close>; with too long an input, status 400 and
  \<open>Input too large. Please keep total input under 25k characters.\<close>; and after the
  checks, the response of the \<open>catch\<close> block for whatever \<open>parseGeminiJson\<close> or the
  redaction throws, and status 200 with the sanitised value otherwise. The response of
  the \<open>catch\<close> block has status 500, the error \<open>Failed to analyze attack paths.\<close>
  and the message thrown as \<open>details\<close>. So every response has status 200, or status
  400 or 500 and an \<open>error\<close> member that is a non-empty string.
\<close>

theorem POST_always_responds:
  "let caught = (\<lambda>err. \<lparr>status = 500,
        body = JObj ([(js ''error'', JStr (js ''Failed to analyze attack paths.'')),
                      (js ''details'', JStr (case message err of None \<Rightarrow> js ''Unknown error.'' | Some m \<Rightarrow> m))] @
                     (case message err of None \<Rightarrow> [] | Some m \<Rightarrow> [(js ''raw_output'', JStr m)]))\<rparr>);
       refused = (\<lambda>st msg. \<lparr>status = st, body = JObj [(js ''error'', JStr msg)]\<rparr>)
   in
     (GEMINI_API_KEY e = None \<or> GEMINI_API_KEY e = Some [] \<longrightarrow>
        POST e rq w = (refused 500 (js ''Missing GEMINI_API_KEY environment variable.''), [])) \<and>
     (\<forall>key. GEMINI_API_KEY e = Some key \<and> key \<noteq> [] \<longrightarrow>
        (\<forall>err. rq = Inl err \<longrightarrow> POST e rq w = (caught err, [])) \<and>
        (\<forall>inp. rq = Inr inp \<longrightarrow>
           (system_text inp = None \<or> (\<exists>s. system_text inp = Some s \<and> trim s = []) \<longrightarrow>
              POST e rq w = (refused 400 (js ''System snapshot is required.''), [])) \<and>
           (\<forall>s. system_text inp = Some s \<and> trim s \<noteq> [] \<longrightarrow>
              (25000 < length s + length_or_0 (diagram_summary inp) + length_or_0 (snippet config inp) +
                       length_or_0 (snippet logs inp) + length_or_0 (snippet code inp) \<longrightarrow>
                 POST e rq w =
                   (refused 400 (js ''Input too large. Please keep total input under 25k characters.''), [])) \<and>
              (length s + length_or_0 (diagram_summary inp) + length_or_0 (snippet config inp) +
                 length_or_0 (snippet logs inp) + length_or_0 (snippet code inp) \<le> 25000 \<longrightarrow>
                 (\<forall>err calls.
                    parseGeminiJson w key (case GEMINI_MODEL e of None \<Rightarrow> js ''gemini-3'' | Some m \<Rightarrow> m)
                      (buildUserPrompt inp) [] = (Inl err, calls) \<longrightarrow>
                    POST e rq w = (caught err, calls)) \<and>
                 (\<forall>parsed raw calls.
                    parseGeminiJson w key (case GEMINI_MODEL e of None \<Rightarrow> js ''gemini-3'' | Some m \<Rightarrow> m)
                      (buildUserPrompt inp) [] = (Inr (parsed, raw), calls) \<longrightarrow>
                    (\<forall>err. redactionFilter parsed = Inl err \<longrightarrow> POST e rq w = (caught err, calls)) \<and>
                    (\<forall>j. redactionFilter parsed = Inr j \<longrightarrow>
                       POST e rq w = (\<lparr>status = 200, body = j\<rparr>, calls))))))) \<and>
     (status (fst (POST e rq w)) = 200 \<or>
      (status (fst (POST e rq w)) = 400 \<or> status (fst (POST e rq w)) = 500) \<and>
      (\<exists>m. error_field (fst (POST e rq w)) = Some m \<and> m \<noteq> []))"
proof -
  have no_key: "POST e rq w =
      (\<lparr>status = 500, body = JObj [(js ''error'', JStr (js ''Missing GEMINI_API_KEY environment variable.''))]\<rparr>, [])"
    if "GEMINI_API_KEY e = None \<or> GEMINI_API_KEY e = Some []"
    using POST_try_no_key [OF that] by (simp add: POST_def error_response_def)
  have bad_body: "POST e rq w = (catch_response err, [])"
    if "GEMINI_API_KEY e = Some key \<and> key \<noteq> []" "rq = Inl err" for key err
    using that POST_try_bad_body [of e key err w] by (simp add: POST_def)
  have missing: "POST e rq w =
      (\<lparr>status = 400, body = JObj [(js ''error'', JStr (js ''System snapshot is required.''))]\<rparr>, [])"
    if "GEMINI_API_KEY e = Some key \<and> key \<noteq> []" "rq = Inr inp"
       "system_text inp = None \<or> (\<exists>s. system_text inp = Some s \<and> trim s = [])" for key inp
  proof -
    from that(3) have "system_text_missing inp"
      by (auto simp: system_text_missing_def)
    with that(1,2) POST_try_missing_text [of e key inp w] show ?thesis
      by (simp add: POST_def error_response_def)
  qed
  have present: "\<not> system_text_missing inp \<and>
      five_fields inp = length s + length_or_0 (diagram_summary inp) + length_or_0 (snippet config inp) +
                 length_or_0 (snippet logs inp) + length_or_0 (snippet code inp)"
    if "system_text inp = Some s \<and> trim s \<noteq> []" for inp s
  proof -
    from that have "s \<noteq> []" using trim_Nil by auto
    with that show ?thesis
      by (simp add: system_text_missing_def five_fields_def length_or_0_def)
  qed
  have large: "POST e rq w =
      (\<lparr>status = 400,
        body = JObj [(js ''error'', JStr (js ''Input too large. Please keep total input under 25k characters.''))]\<rparr>, [])"
    if "GEMINI_API_KEY e = Some key \<and> key \<noteq> []" "rq = Inr inp"
       "system_text inp = Some s \<and> trim s \<noteq> []"
       "25000 < length s + length_or_0 (diagram_summary inp) + length_or_0 (snippet config inp) +
                       length_or_0 (snippet logs inp) + length_or_0 (snippet code inp)" for key inp s
  proof -
    from present [OF that(3)] that(4) have "\<not> system_text_missing inp" "MAX_TOTAL_CHARS < five_fields inp"
      by (simp_all add: MAX_TOTAL_CHARS_def)
    with that(1,2) POST_try_too_large [of e key inp w] show ?thesis
      by (simp add: POST_def error_response_def)
  qed
  have run: "POST_try e rq w =
      after_validation w key (case GEMINI_MODEL e of None \<Rightarrow> js ''gemini-3'' | Some m \<Rightarrow> m) inp"
    if "GEMINI_API_KEY e = Some key \<and> key \<noteq> []" "rq = Inr inp"
       "system_text inp = Some s \<and> trim s \<noteq> []"
       "length s + length_or_0 (diagram_summary inp) + length_or_0 (snippet config inp) +
                 length_or_0 (snippet logs inp) + length_or_0 (snippet code inp) \<le> 25000" for key inp s
  proof -
    from present [OF that(3)] that(4) have "\<not> system_text_missing inp" "five_fields inp \<le> MAX_TOTAL_CHARS"
      by (simp_all add: MAX_TOTAL_CHARS_def)
    with that(1,2) POST_try_valid [of e key inp w] show ?thesis
      by (simp add: nullish_def)
  qed
  have summary: "status (fst (POST e rq w)) = 200 \<or>
      (status (fst (POST e rq w)) = 400 \<or> status (fst (POST e rq w)) = 500) \<and>
      (\<exists>m. error_field (fst (POST e rq w)) = Some m \<and> m \<noteq> [])"
  proof -
    consider (thrown) err calls where "POST_try e rq w = (Inl err, calls)"
      | (success) j calls where "POST_try e rq w = (Inr \<lparr>status = 200, body = j\<rparr>, calls)"
      | (refused) m st where "POST_try e rq w = (Inr (error_response m st), [])"
          "st = 400 \<or> st = 500" "m \<noteq> []"
      using POST_try_cases [of e rq w] js_nonempty by (elim disjE exE) blast+
    then show ?thesis
    proof cases
      case thrown
      then have "fst (POST e rq w) = catch_response err" by (simp add: POST_def)
      then show ?thesis
        by (simp add: status_catch_response error_field_catch_response js_nonempty)
    next
      case success
      then show ?thesis by (simp add: POST_def)
    next
      case refused
      then have "fst (POST e rq w) = error_response m st" by (simp add: POST_def)
      with refused show ?thesis
        by (auto simp: status_error_response error_field_error_response)
    qed
  qed
  show ?thesis
    unfolding Let_def catch_response_explicit [symmetric]
  proof (intro conjI allI impI)
    assume "GEMINI_API_KEY e = None \<or> GEMINI_API_KEY e = Some []"
    then show "POST e rq w =
      (\<lparr>status = 500, body = JObj [(js ''error'', JStr (js ''Missing GEMINI_API_KEY environment variable.''))]\<rparr>, [])"
      by (rule no_key)
  next
    fix key err
    assume "GEMINI_API_KEY e = Some key \<and> key \<noteq> []" "rq = Inl err"
    then show "POST e rq w = (catch_response err, [])" by (rule bad_body)
  next
    fix key inp
    assume "GEMINI_API_KEY e = Some key \<and> key \<noteq> []" "rq = Inr inp"
      "system_text inp = None \<or> (\<exists>s. system_text inp = Some s \<and> trim s = [])"
    then show "POST e rq w =
      (\<lparr>status = 400, body = JObj [(js ''error'', JStr (js ''System snapshot is required.''))]\<rparr>, [])"
      by (rule missing)
  next
    fix key inp s
    assume "GEMINI_API_KEY e = Some key \<and> key \<noteq> []" "rq = Inr inp"
       "system_text inp = Some s \<and> trim s \<noteq> []"
       "25000 < length s + length_or_0 (diagram_summary inp) + length_or_0 (snippet config inp) +
                       length_or_0 (snippet logs inp) + length_or_0 (snippet code inp)"
    then show "POST e rq w =
      (\<lparr>status = 400,
        body = JObj [(js ''error'', JStr (js ''Input too large. Please keep total input under 25k characters.''))]\<rparr>, [])"
      by (rule large)
  next
    fix key inp s err calls
    assume a: "GEMINI_API_KEY e = Some key \<and> key \<noteq> []" "rq = Inr inp"
       "system_text inp = Some s \<and> trim s \<noteq> []"
       "length s + length_or_0 (diagram_summary inp) + length_or_0 (snippet config inp) +
                 length_or_0 (snippet logs inp) + length_or_0 (snippet code inp) \<le> 25000"
      and b: "parseGeminiJson w key (case GEMINI_MODEL e of None \<Rightarrow> js ''gemini-3'' | Some m \<Rightarrow> m)
                      (buildUserPrompt inp) [] = (Inl err, calls)"
    show "POST e rq w = (catch_response err, calls)"
      using run [OF a] b by (simp add: POST_def after_validation_def)
  next
    fix key inp s parsed raw calls err
    assume a: "GEMINI_API_KEY e = Some key \<and> key \<noteq> []" "rq = Inr inp"
       "system_text inp = Some s \<and> trim s \<noteq> []"
       "length s + length_or_0 (diagram_summary inp) + length_or_0 (snippet config inp) +
                 length_or_0 (snippet logs inp) + length_or_0 (snippet code inp) \<le> 25000"
      and b: "parseGeminiJson w key (case GEMINI_MODEL e of None \<Rightarrow> js ''gemini-3'' | Some m \<Rightarrow> m)
                      (buildUserPrompt inp) [] = (Inr (parsed, raw), calls)"
      and c: "redactionFilter parsed = Inl err"
    show "POST e rq w = (catch_response err, calls)"
      using run [OF a] b c by (simp add: POST_def after_validation_def)
  next
    fix key inp s parsed raw calls j
    assume a: "GEMINI_API_KEY e = Some key \<and> key \<noteq> []" "rq = Inr inp"
       "system_text inp = Some s \<and> trim s \<noteq> []"
       "length s + length_or_0 (diagram_summary inp) + length_or_0 (snippet config inp) +
                 length_or_0 (snippet logs inp) + length_or_0 (snippet code inp) \<le> 25000"
      and b: "parseGeminiJson w key (case GEMINI_MODEL e of None \<Rightarrow> js ''gemini-3'' | Some m \<Rightarrow> m)
                      (buildUserPrompt inp) [] = (Inr (parsed, raw), calls)"
      and c: "redactionFilter parsed = Inr j"
    show "POST e rq w = (\<lparr>status = 200, body = j\<rparr>, calls)"
      using run [OF a] b c by (simp add: POST_def after_validation_def)
  next
    show "status (fst (POST e rq w)) = 200 \<or>
      (status (fst (POST e rq w)) = 400 \<or> status (fst (POST e rq w)) = 500) \<and>
      (\<exists>m. error_field (fst (POST e rq w)) = Some m \<and> m \<noteq> [])"
      by (rule summary)
  qed
qed

theorem POST_always_responds_witness:
  "POST example_env (Inl (SyntaxError (js ''bad body''))) unreachable =
     (\<lparr>status = 500,
       body = JObj [(js ''error'', JStr (js ''Failed to analyze attack paths.'')),
                    (js ''details'', JStr (js ''bad body'')),
                    (js ''raw_output'', JStr (js ''bad body''))]\<rparr>, [])"
proof -
  have k: "GEMINI_API_KEY example_env = Some (js ''k'') \<and> js ''k'' \<noteq> []"
    using example_key by simp
  from POST_always_responds [of example_env "Inl (SyntaxError (js ''bad body''))" unreachable] k
  show ?thesis unfolding Let_def by auto
qed

subsection \<open>What sanitizeOutput does on every text\<close>

text \<open>
  A keyword that occurs in the text, in any case, is matched by its pattern, so the flag
  \<open>redacted\<close> is set; and a text in which no pattern matches is returned as it is.
\<close>

lemma canonicalize_dot: "canonicalize 0x2E = canonicalize c \<Longrightarrow> c = 0x2E"
  by (auto simp: canonicalize_def split: if_splits)

lemma ci_prefix_match_here: "ci_prefix k s \<Longrightarrow> match_here (RegExp k) s"
proof (induction k s rule: ci_prefix.induct)
  case (3 k ks c cs)
  then have "match_here (RegExp ks) cs" by simp
  moreover have "atom_matches (if k = 0x2E then AnyChar else Lit k) c"
    using 3 canonicalize_dot [of c] by (auto simp: isLineTerminator_def)
  ultimately show ?case by (simp add: RegExp_def)
qed (simp_all add: RegExp_def)

lemma ci_substring_regex_test: "ci_substring k s \<Longrightarrow> regex_test (RegExp k) s"
  by (induction s) (auto dest: ci_prefix_match_here)

lemma sanitize_loop_keeps_flag: "redacted acc \<Longrightarrow> redacted (sanitize_loop ks acc)"
  by (induction ks arbitrary: acc) (simp_all add: Let_def)

lemma sanitize_loop_flags:
  "\<exists>k\<in>set ks. regex_test (RegExp k) (sanitized acc) \<Longrightarrow> redacted (sanitize_loop ks acc)"
proof (induction ks arbitrary: acc)
  case Nil
  then show ?case by simp
next
  case (Cons k ks)
  show ?case
  proof (cases "regex_test (RegExp k) (sanitized acc)")
    case True
    then show ?thesis by (simp add: Let_def sanitize_loop_keeps_flag)
  next
    case False
    with Cons.prems have "\<exists>k\<in>set ks. regex_test (RegExp k) (sanitized acc)" by auto
    with Cons.IH False show ?thesis by (simp add: Let_def)
  qed
qed

lemma sanitizeOutput_flags: "mentions_keyword s \<Longrightarrow> redacted (sanitizeOutput s)"
proof -
  assume "mentions_keyword s"
  then obtain k where "k \<in> set EXPLOIT_KEYWORDS" "ci_substring k s"
    by (auto simp: mentions_keyword_def list_ex_iff)
  then have "\<exists>k\<in>set EXPLOIT_KEYWORDS. regex_test (RegExp k) (sanitized \<lparr>sanitized = s, redacted = False\<rparr>)"
    using ci_substring_regex_test by auto
  then show ?thesis unfolding sanitizeOutput_def by (rule sanitize_loop_flags)
qed

lemma sanitize_loop_no_match:
  "\<forall>k\<in>set ks. \<not> regex_test (RegExp k) (sanitized acc) \<Longrightarrow> sanitize_loop ks acc = acc"
  by (induction ks arbitrary: acc) (simp_all add: Let_def)

lemma sanitizeOutput_no_match:
  "\<forall>k\<in>set EXPLOIT_KEYWORDS. \<not> regex_test (RegExp k) s \<Longrightarrow>
   sanitizeOutput s = \<lparr>sanitized = s, redacted = False\<rparr>"
  by (simp add: sanitizeOutput_def sanitize_loop_no_match)

lemma sanitize_loop_unflagged:
  "\<not> redacted (sanitize_loop ks acc) \<Longrightarrow> sanitize_loop ks acc = acc"
proof (induction ks arbitrary: acc)
  case Nil
  then show ?case by simp
next
  case (Cons k ks)
  show ?case
  proof (cases "regex_test (RegExp k) (sanitized acc)")
    case True
    then have "redacted (sanitize_loop (k # ks) acc)"
      by (simp add: Let_def sanitize_loop_keeps_flag)
    with Cons.prems show ?thesis by simp
  next
    case False
    with Cons show ?thesis by (simp add: Let_def)
  qed
qed

text \<open>
  No pattern of the list matches in the sanitised text: a match would lie in a part of
  the text that was not replaced, where there was none, or share a code unit with a
  marker, which no pattern of the list can. So no keyword is left, in any case.
\<close>

lemma match_here_compat: "match_here p (r @ y) \<Longrightarrow> compat p r"
  by (induction p r rule: compat.induct) auto

lemma match_here_append: "match_here p u \<Longrightarrow> match_here p (u @ z)"
  by (induction p u rule: match_here.induct) auto

lemma match_here_through_marker:
  "no_compat_suffix p r \<Longrightarrow> match_here p (u @ r @ w) \<Longrightarrow> match_here p u"
proof (induction p u rule: match_here.induct)
  case (1 s)
  then show ?case by simp
next
  case (2 a as)
  from 2(2) have "compat (a # as) r" using match_here_compat by simp
  with 2(1) show ?case by simp
next
  case (3 a as c cs)
  then show ?case by simp
qed

lemma regex_test_after_tail:
  "no_compat_tail p x \<Longrightarrow> regex_test p (x @ y) \<Longrightarrow> regex_test p y"
proof (induction x)
  case Nil
  then show ?case by simp
next
  case (Cons c x)
  from Cons.prems(1) have "\<not> compat p (c # x)" "no_compat_tail p x" by simp_all
  moreover have "\<not> match_here p ((c # x) @ y)"
    using \<open>\<not> compat p (c # x)\<close> match_here_compat by blast
  ultimately show ?case using Cons.IH Cons.prems(2) by simp
qed

lemma regex_test_after_marker:
  assumes "isolated p r" and "regex_test p (r @ y)"
  shows "regex_test p y"
  using assms regex_test_after_tail by (simp add: isolated_def) blast

lemma replace_from_shape:
  "q \<noteq> [] \<Longrightarrow>
   replace_from q r 0 s = s \<or> (\<exists>u z w. s = u @ z \<and> replace_from q r 0 s = u @ r @ w)"
proof (induction s)
  case Nil
  then show ?case by (cases q) simp_all
next
  case (Cons c cs)
  show ?case
  proof (cases "match_here q (c # cs)")
    case True
    with Cons.prems have "replace_from q r 0 (c # cs) = [] @ r @ replace_from q r (length q - 1) cs"
      by simp
    moreover have "c # cs = [] @ (c # cs)" by simp
    ultimately show ?thesis by blast
  next
    case False
    then have out: "replace_from q r 0 (c # cs) = c # replace_from q r 0 cs" by simp
    from Cons.IH [OF Cons.prems] show ?thesis
    proof
      assume "replace_from q r 0 cs = cs"
      with out show ?thesis by simp
    next
      assume "\<exists>u z w. cs = u @ z \<and> replace_from q r 0 cs = u @ r @ w"
      then obtain u z w where "cs = u @ z" "replace_from q r 0 cs = u @ r @ w" by blast
      with out have "c # cs = (c # u) @ z" "replace_from q r 0 (c # cs) = (c # u) @ r @ w" by simp_all
      then show ?thesis by blast
    qed
  qed
qed

lemma regex_test_Nil: "p \<noteq> [] \<Longrightarrow> \<not> regex_test p []"
  by (cases p) simp_all

lemma replace_from_free:
  assumes "isolated p r" and "q \<noteq> []"
  shows "\<not> regex_test p s \<or> p = q \<Longrightarrow> \<not> regex_test p (replace_from q r skip s)"
proof (induction s arbitrary: skip)
  case Nil
  from assms(1) have "p \<noteq> []" by (simp add: isolated_def)
  then have "\<not> regex_test p []" by (rule regex_test_Nil)
  moreover from assms(2) have "\<not> match_here q []" by (cases q) simp_all
  ultimately show ?case by simp
next
  case (Cons c cs)
  from Cons.prems have rest: "\<not> regex_test p cs \<or> p = q" by auto
  note IH = Cons.IH [OF rest]
  show ?case
  proof (cases "0 < skip")
    case True
    then have "replace_from q r skip (c # cs) = replace_from q r (skip - 1) cs"
      by (simp only: replace_from.simps if_True)
    with IH [of "skip - 1"] show ?thesis by (simp only: simp_thms)
  next
    case False
    show ?thesis
    proof (cases "match_here q (c # cs)")
      case True
      with False assms(2) have out: "replace_from q r skip (c # cs) = r @ replace_from q r (length q - 1) cs"
        by (simp only: replace_from.simps if_True if_False)
      have "\<not> regex_test p (r @ replace_from q r (length q - 1) cs)"
        using regex_test_after_marker [OF assms(1)] IH [of "length q - 1"] by blast
      then show ?thesis by (simp only: out simp_thms)
    next
      case no_match: False
      from False have skip: "skip = 0" by simp
      from no_match have out0: "replace_from q r 0 (c # cs) = c # replace_from q r 0 cs"
        by (simp only: replace_from.simps less_irrefl if_False)
      from no_match Cons.prems have head: "\<not> match_here p (c # cs)" by auto
      have "\<not> match_here p (replace_from q r 0 (c # cs))"
      proof
        assume m: "match_here p (replace_from q r 0 (c # cs))"
        from replace_from_shape [OF assms(2), of r "c # cs"] show False
        proof
          assume e: "replace_from q r 0 (c # cs) = c # cs"
          from m have "match_here p (c # cs)" by (simp only: e simp_thms)
          with head show False by blast
        next
          assume "\<exists>u z w. c # cs = u @ z \<and> replace_from q r 0 (c # cs) = u @ r @ w"
          then obtain u z w where s: "c # cs = u @ z" and o: "replace_from q r 0 (c # cs) = u @ r @ w"
            by blast
          from assms(1) have "no_compat_suffix p r" by (simp add: isolated_def)
          moreover from m have "match_here p (u @ r @ w)" by (simp only: o simp_thms)
          ultimately have "match_here p u" by (rule match_here_through_marker)
          then have "match_here p (u @ z)" by (rule match_here_append)
          then have "match_here p (c # cs)" by (simp only: s simp_thms)
          with head show False by blast
        qed
      qed
      then have "\<not> match_here p (c # replace_from q r 0 cs)" by (simp only: out0 simp_thms)
      with IH [of 0] have "\<not> regex_test p (c # replace_from q r 0 cs)"
        by (simp only: regex_test.simps simp_thms)
      then show ?thesis by (simp only: skip out0 simp_thms)
    qed
  qed
qed

lemma sanitize_loop_clean:
  assumes iso: "\<forall>k\<in>set seen \<union> set ks. isolated (RegExp k) REDACTED"
    and free: "\<forall>k\<in>set seen. \<not> regex_test (RegExp k) (sanitized acc)"
  shows "\<forall>k\<in>set seen \<union> set ks. \<not> regex_test (RegExp k) (sanitized (sanitize_loop ks acc))"
  using assms
proof (induction ks arbitrary: seen acc)
  case Nil
  then show ?case by simp
next
  case (Cons q ks)
  have q_ne: "RegExp q \<noteq> []" using Cons.prems(1) by (simp add: isolated_def)
  show ?case
  proof (cases "regex_test (RegExp q) (sanitized acc)")
    case False
    then have "\<forall>k\<in>set (q # seen). \<not> regex_test (RegExp k) (sanitized acc)"
      using Cons.prems(2) by simp
    moreover have "\<forall>k\<in>set (q # seen) \<union> set ks. isolated (RegExp k) REDACTED"
      using Cons.prems(1) by auto
    ultimately have "\<forall>k\<in>set (q # seen) \<union> set ks.
        \<not> regex_test (RegExp k) (sanitized (sanitize_loop ks acc))"
      by (rule Cons.IH [rotated])
    with False show ?thesis by (simp add: Let_def)
  next
    case True
    let ?acc = "\<lparr>sanitized = replace (RegExp q) REDACTED (sanitized acc), redacted = True\<rparr>"
    have "\<forall>k\<in>set (q # seen). \<not> regex_test (RegExp k) (sanitized ?acc)"
    proof
      fix k assume k: "k \<in> set (q # seen)"
      then have "isolated (RegExp k) REDACTED" using Cons.prems(1) by auto
      moreover have "\<not> regex_test (RegExp k) (sanitized acc) \<or> RegExp k = RegExp q"
        using k Cons.prems(2) by auto
      ultimately show "\<not> regex_test (RegExp k) (sanitized ?acc)"
        using replace_from_free [OF _ q_ne] by (simp add: replace_def)
    qed
    moreover have "\<forall>k\<in>set (q # seen) \<union> set ks. isolated (RegExp k) REDACTED"
      using Cons.prems(1) by auto
    ultimately have "\<forall>k\<in>set (q # seen) \<union> set ks.
        \<not> regex_test (RegExp k) (sanitized (sanitize_loop ks ?acc))"
      by (rule Cons.IH [rotated])
    with True show ?thesis by (simp add: Let_def)
  qed
qed

lemma keywords_isolated: "\<forall>k\<in>set EXPLOIT_KEYWORDS. isolated (RegExp k) REDACTED"
  by (simp add: EXPLOIT_KEYWORDS_def REDACTED_def isolated_def js_simps RegExp_def canonicalize_def
      isLineTerminator_def)

lemma sanitizeOutput_clean: "\<not> mentions_keyword (sanitized (sanitizeOutput s))"
proof
  assume "mentions_keyword (sanitized (sanitizeOutput s))"
  then obtain k where k: "k \<in> set EXPLOIT_KEYWORDS" "ci_substring k (sanitized (sanitizeOutput s))"
    by (auto simp: mentions_keyword_def list_ex_iff)
  then have "regex_test (RegExp k) (sanitized (sanitizeOutput s))"
    using ci_substring_regex_test by blast
  moreover have "\<forall>k\<in>set [] \<union> set EXPLOIT_KEYWORDS.
      \<not> regex_test (RegExp k) (sanitized (sanitize_loop EXPLOIT_KEYWORDS \<lparr>sanitized = s, redacted = False\<rparr>))"
    by (rule sanitize_loop_clean) (simp_all add: keywords_isolated)
  ultimately show False using k(1) by (simp add: sanitizeOutput_def)
qed

text \<open>
  A keyword in a string value of the answer is in the serialised text: its code units
  are serialised as they are. So the filter sets the flag and leaves no keyword; and
  when the sanitised text parses again to an object, the disclosure note is the first
  element of the \<open>safe_notes\<close> of the value returned.
\<close>

lemma keyword_unit_plain:
  "keyword_unit k \<Longrightarrow> canonicalize k = canonicalize c \<Longrightarrow> plain_unit c"
  by (auto simp: keyword_unit_def plain_unit_def canonicalize_def split: if_splits)

lemma quote_unit_plain: "plain_unit c \<Longrightarrow> quote_unit c = [c]"
  by (auto simp: plain_unit_def quote_unit_def isLeadingSurrogate_def isTrailingSurrogate_def)

lemma plain_not_surrogate: "plain_unit c \<Longrightarrow> \<not> isLeadingSurrogate c \<and> \<not> isTrailingSurrogate c"
  by (auto simp: plain_unit_def isLeadingSurrogate_def isTrailingSurrogate_def)

lemma quote_units_plain: "plain_unit c \<Longrightarrow> quote_units (c # cs) = c # quote_units cs"
  by (cases cs) (simp_all add: quote_unit_plain plain_not_surrogate)

lemma ci_prefix_Nil: "ci_prefix [] s"
  by simp

lemma ci_substring_Nil: "ci_substring [] s"
  by (cases s) simp_all

lemma ci_prefix_append: "ci_prefix k s \<Longrightarrow> ci_prefix k (s @ y)"
  by (induction k s rule: ci_prefix.induct) auto

lemma ci_substring_append: "ci_substring k s \<Longrightarrow> ci_substring k (s @ y)"
proof (induction s)
  case Nil
  then have "k = []" by (cases k) simp_all
  then show ?case by (simp add: ci_substring_Nil)
next
  case (Cons c s)
  then show ?case by (auto dest: ci_prefix_append [where y = y])
qed

lemma ci_substring_prepend: "ci_substring k s \<Longrightarrow> ci_substring k (x @ s)"
  by (induction x) simp_all

lemma ci_substring_middle: "ci_substring k s \<Longrightarrow> ci_substring k (x @ s @ y)"
  by (simp add: ci_substring_append ci_substring_prepend)

lemma ci_prefix_quote_units:
  "list_all keyword_unit k \<Longrightarrow> ci_prefix k s \<Longrightarrow> ci_prefix k (quote_units s)"
proof (induction k s rule: ci_prefix.induct)
  case (3 k ks c cs)
  then have "keyword_unit k" "canonicalize k = canonicalize c" by simp_all
  then have "plain_unit c" by (rule keyword_unit_plain)
  then have "quote_units (c # cs) = c # quote_units cs" by (rule quote_units_plain)
  with 3 show ?case by simp
qed simp_all

lemma ci_substring_quote_units:
  "list_all keyword_unit k \<Longrightarrow> ci_substring k s \<Longrightarrow> ci_substring k (quote_units s)"
proof (induction s rule: quote_units.induct)
  case 1
  then show ?case by simp
next
  case (2 c)
  from 2(2) have "ci_prefix k [c] \<or> k = []" by (cases k) auto
  then show ?case
  proof
    assume "ci_prefix k [c]"
    with 2(1) have "ci_prefix k (quote_units [c])" by (rule ci_prefix_quote_units)
    then show ?thesis by (cases "quote_units [c]") auto
  next
    assume "k = []"
    then show ?thesis by (simp add: ci_substring_Nil)
  qed
next
  case (3 c d cs)
  from 3(4) consider "ci_prefix k (c # d # cs)" | "ci_substring k (d # cs)" by auto
  then show ?case
  proof cases
    case 1
    with 3(3) have "ci_prefix k (quote_units (c # d # cs))" by (rule ci_prefix_quote_units)
    then show ?thesis by (cases "quote_units (c # d # cs)") auto
  next
    case 2
    show ?thesis
    proof (cases "isLeadingSurrogate c \<and> isTrailingSurrogate d")
      case False
      have "ci_substring k (quote_units (d # cs))" by (rule 3(2) [OF False 3(3) 2])
      then have "ci_substring k (quote_unit c @ quote_units (d # cs))" by (rule ci_substring_prepend)
      moreover have "quote_units (c # d # cs) = quote_unit c @ quote_units (d # cs)"
        using False by auto
      ultimately show ?thesis by (simp only:)
    next
      case True
      from 2 have "ci_prefix k (d # cs) \<or> ci_substring k cs" by simp
      then have "ci_substring k cs \<or> k = []"
      proof
        assume p: "ci_prefix k (d # cs)"
        show ?thesis
        proof (cases k)
          case Nil
          then show ?thesis by simp
        next
          case (Cons a as)
          with p 3(3) have "keyword_unit a" "canonicalize a = canonicalize d" by simp_all
          then have "plain_unit d" by (rule keyword_unit_plain)
          with True show ?thesis using plain_not_surrogate by blast
        qed
      qed simp
      then have "ci_substring k (quote_units cs)"
        using 3(1) [OF True 3(3)] by (auto simp: ci_substring_Nil)
      then have "ci_substring k ([c, d] @ quote_units cs)" by (rule ci_substring_prepend)
      moreover have "quote_units (c # d # cs) = [c, d] @ quote_units cs"
        using True by simp
      ultimately show ?thesis by (simp only:)
    qed
  qed
qed

lemma ci_substring_QuoteJSONString:
  "list_all keyword_unit k \<Longrightarrow> ci_substring k s \<Longrightarrow> ci_substring k (QuoteJSONString s)"
proof -
  assume "list_all keyword_unit k" "ci_substring k s"
  then have "ci_substring k (quote_units s)" by (rule ci_substring_quote_units)
  then have "ci_substring k ([0x22] @ quote_units s @ [0x22])" by (rule ci_substring_middle)
  then show ?thesis by (simp add: QuoteJSONString_def)
qed

lemma join_member: "e \<in> set es \<Longrightarrow> \<exists>a b. join sep es = a @ e @ b"
proof (induction sep es rule: join.induct)
  case (1 sep)
  then show ?case by simp
next
  case (2 sep x)
  then have "join sep [x] = [] @ e @ []" by simp
  then show ?case by blast
next
  case (3 sep x y ys)
  show ?case
  proof (cases "e = x")
    case True
    then have "join sep (x # y # ys) = [] @ e @ (sep @ join sep (y # ys))" by simp
    then show ?thesis by blast
  next
    case False
    with 3 obtain a b where "join sep (y # ys) = a @ e @ b" by auto
    then have "join sep (x # y # ys) = (x @ sep @ a) @ e @ b" by simp
    then show ?thesis by blast
  qed
qed

lemma ci_substring_join:
  "e \<in> set es \<Longrightarrow> ci_substring k e \<Longrightarrow> ci_substring k (join sep es)"
  using join_member [of e es sep] ci_substring_middle by metis

lemma ci_substring_serialize:
  "list_all keyword_unit k \<Longrightarrow> s \<in> set (string_values v) \<Longrightarrow> ci_substring k s \<Longrightarrow>
   ci_substring k (serialize indent v)"
proof (induction indent v rule: serialize.induct)
  case (4 indent t)
  then show ?case by (simp add: ci_substring_QuoteJSONString)
next
  case (5 indent xs)
  from 5(3) obtain x where x: "x \<in> set xs" "s \<in> set (string_values x)" by auto
  then have ne: "xs \<noteq> []" by auto
  from 5(1) [OF ne x(1) 5(2) x(2) 5(4)]
  have "ci_substring k (serialize (indent @ js ''  '') x)" .
  moreover have "serialize (indent @ js ''  '') x \<in> set (map (serialize (indent @ js ''  '')) xs)"
    using x(1) by simp
  ultimately have "ci_substring k (join (js '','' @ 0x0A # (indent @ js ''  ''))
      (map (serialize (indent @ js ''  '')) xs))"
    by (rule ci_substring_join [rotated])
  then have "ci_substring k ((js ''['' @ 0x0A # (indent @ js ''  '')) @
      join (js '','' @ 0x0A # (indent @ js ''  '')) (map (serialize (indent @ js ''  '')) xs) @
      (0x0A # indent @ js '']''))"
    by (rule ci_substring_middle)
  with ne show ?case by simp
next
  case (6 indent ms)
  from 6(3) obtain m where m: "m \<in> set ms" "s \<in> set (string_values (snd m))" by auto
  then have ne: "ms \<noteq> []" by auto
  let ?f = "\<lambda>m. QuoteJSONString (fst m) @ js '': '' @ serialize (indent @ js ''  '') (snd m)"
  from 6(1) [OF ne m(1) 6(2) m(2) 6(4)]
  have "ci_substring k (serialize (indent @ js ''  '') (snd m))" .
  then have "ci_substring k (?f m)" using ci_substring_prepend [of k _ "QuoteJSONString (fst m) @ js '': ''"]
    by simp
  moreover have "?f m \<in> set (map ?f ms)" using m(1) by simp
  ultimately have "ci_substring k (join (js '','' @ 0x0A # (indent @ js ''  '')) (map ?f ms))"
    by (rule ci_substring_join [rotated])
  then have "ci_substring k ((js ''{'' @ 0x0A # (indent @ js ''  '')) @
      join (js '','' @ 0x0A # (indent @ js ''  '')) (map ?f ms) @
      (0x0A # indent @ js ''}''))"
    by (rule ci_substring_middle)
  with ne show ?case by simp
qed simp_all

lemma keywords_plain: "\<forall>k\<in>set EXPLOIT_KEYWORDS. list_all keyword_unit k"
  by (simp add: EXPLOIT_KEYWORDS_def js_simps keyword_unit_def)

lemma map_of_obj_put: "map_of (obj_put k v ms) k = Some v"
  by (induction ms) auto

lemma keyword_in_string_is_redacted:
  assumes "s \<in> set (string_values v)" and "k \<in> set EXPLOIT_KEYWORDS" and "ci_substring k s"
  shows "redacted (sanitizeOutput (JSON_stringify v)) \<and>
         \<not> mentions_keyword (sanitized (sanitizeOutput (JSON_stringify v)))"
proof -
  from assms(2) keywords_plain have "list_all keyword_unit k" by blast
  then have "ci_substring k (JSON_stringify v)"
    unfolding JSON_stringify_def using assms(1,3) by (rule ci_substring_serialize)
  with assms(2) have "mentions_keyword (JSON_stringify v)"
    by (auto simp: mentions_keyword_def list_ex_iff)
  then show ?thesis using sanitizeOutput_flags sanitizeOutput_clean by blast
qed

lemma redactionFilter_reparsed_object:
  assumes "s \<in> set (string_values v)" and "k \<in> set EXPLOIT_KEYWORDS" and "ci_substring k s"
    and "JSON_parse (sanitized (sanitizeOutput (JSON_stringify v))) = Some (JObj ms)"
  shows "\<exists>ms' old. redactionFilter v = Inr (JObj ms') \<and>
           map_of ms' (js ''safe_notes'') = Some (JArr (JStr DISCLOSURE # old))"
proof -
  from keyword_in_string_is_redacted [OF assms(1-3)]
  have "redacted (sanitizeOutput (JSON_stringify v))" by blast
  with assms(4) have "redactionFilter v = set_safe_notes (JObj ms)"
    by (simp add: redactionFilter_def Let_def)
  then show ?thesis by (simp add: map_of_obj_put)
qed

subsection \<open>The redaction filter at two inputs\<close>

lemma stringify_reverse_shell:
  "JSON_stringify (JObj [(js ''a'', JStr (js ''sqlmap'' @ 0x0D # js ''everse shell''))]) =
     js ''{\<newline>  '' @ 0x22 # js ''a'' @ 0x22 # js '': '' @
     0x22 # js ''sqlmap'' @ 0x5C # js ''reverse shell'' @ 0x22 # js ''\<newline>}''"
  by (simp add: stringify_eval)

lemma sanitize_reverse_shell:
  "sanitizeOutput (js ''{\<newline>  '' @ 0x22 # js ''a'' @ 0x22 # js '': '' @
       0x22 # js ''sqlmap'' @ 0x5C # js ''reverse shell'' @ 0x22 # js ''\<newline>}'') =
     \<lparr>sanitized = js ''{\<newline>  '' @ 0x22 # js ''a'' @ 0x22 # js '': '' @
        0x22 # js ''[redacted]'' @ 0x5C # js ''[redacted]'' @ 0x22 # js ''\<newline>}'',
      redacted = True\<rparr>"
  by (simp add: sanitize_eval)

lemma parse_reverse_shell:
  "JSON_parse (js ''{\<newline>  '' @ 0x22 # js ''a'' @ 0x22 # js '': '' @
       0x22 # js ''[redacted]'' @ 0x5C # js ''[redacted]'' @ 0x22 # js ''\<newline>}'') = None"
  by (simp add: parse_eval)

text \<open>
  C1 at the value \<open>{"a": "sqlmap\reverse shell"}\<close>, whose string holds the keyword
  \<open>sqlmap\<close>, a carriage return and \<open>everse shell\<close>. Serialised, the carriage return is
  the escape \<open>\r\<close>, whose \<open>r\<close> starts a match of \<open>reverse shell\<close>; the replacement
  leaves a backslash before \<open>[redacted]\<close>, the text no longer parses, and the filter
  throws instead of returning a value with \<open>safe_notes\<close>.
\<close>

theorem redactionFilter_breaks_escape:
  "redactionFilter (JObj [(js ''a'', JStr (js ''sqlmap'' @ 0x0D # js ''everse shell''))]) =
     Inl json_syntax_error"
  by (simp add: redactionFilter_def Let_def stringify_reverse_shell sanitize_reverse_shell
      parse_reverse_shell)

lemma stringify_cmd_exe:
  "JSON_stringify (JObj [(js ''a'', JStr (js ''cmd exe''))]) =
     js ''{\<newline>  '' @ 0x22 # js ''a'' @ 0x22 # js '': '' @ 0x22 # js ''cmd exe'' @ 0x22 # js ''\<newline>}''"
  by (simp add: stringify_eval)

lemma sanitize_cmd_exe:
  "sanitizeOutput (js ''{\<newline>  '' @ 0x22 # js ''a'' @ 0x22 # js '': '' @
       0x22 # js ''cmd exe'' @ 0x22 # js ''\<newline>}'') =
     \<lparr>sanitized = js ''{\<newline>  '' @ 0x22 # js ''a'' @ 0x22 # js '': '' @
        0x22 # js ''[redacted]'' @ 0x22 # js ''\<newline>}'',
      redacted = True\<rparr>"
  by (simp add: sanitize_eval)

lemma parse_cmd_exe:
  "JSON_parse (js ''{\<newline>  '' @ 0x22 # js ''a'' @ 0x22 # js '': '' @
       0x22 # js ''[redacted]'' @ 0x22 # js ''\<newline>}'') =
     Some (JObj [(js ''a'', JStr (js ''[redacted]''))])"
  by (simp add: parse_eval)

lemma no_keyword_cmd_exe:
  "\<not> mentions_keyword (js ''{\<newline>  '' @ 0x22 # js ''a'' @ 0x22 # js '': '' @
       0x22 # js ''cmd exe'' @ 0x22 # js ''\<newline>}'')"
  by (simp add: mentions_keyword_def EXPLOIT_KEYWORDS_def js_simps canonicalize_def)

text \<open>
  C3 at the value \<open>{"a": "cmd exe"}\<close>. No keyword of the list is a substring of its
  serialised text, in any case; but the dot of the keyword \<open>cmd.exe\<close>, read as a
  pattern, matches the space, so the filter replaces \<open>cmd exe\<close> and adds \<open>safe_notes\<close>:
  the value returned is not the value given.
\<close>

theorem redactionFilter_dot_matches_any:
  "\<not> mentions_keyword (JSON_stringify (JObj [(js ''a'', JStr (js ''cmd exe''))])) \<and>
   redactionFilter (JObj [(js ''a'', JStr (js ''cmd exe''))]) =
     Inr (JObj [(js ''a'', JStr REDACTED), (js ''safe_notes'', JArr [JStr DISCLOSURE])])"
proof -
  have "redactionFilter (JObj [(js ''a'', JStr (js ''cmd exe''))]) =
          set_safe_notes (JObj [(js ''a'', JStr (js ''[redacted]''))])"
    by (simp add: redactionFilter_def Let_def stringify_cmd_exe sanitize_cmd_exe parse_cmd_exe)
  also have "\<dots> = Inr (JObj [(js ''a'', JStr REDACTED), (js ''safe_notes'', JArr [JStr DISCLOSURE])])"
    by (simp add: REDACTED_def js_simps)
  finally show ?thesis
    using no_keyword_cmd_exe by (simp add: stringify_cmd_exe)
qed

end
